theory Spec2Isabelle
  imports Complex_Main "HOL-Library.Multiset"
begin

section \<open>The candle store: table \<open>candlesticks\<close> and \<open>DataManager.saveCandle\<close>\<close>

text \<open>
  A candle is the object that \<open>fetchKlines\<close> and the stream handler build: times are
  epoch milliseconds, \<open>trades\<close> is an integer count, the other fields are decimal
  numbers. The table columns are \<open>DECIMAL(20, 8)\<close> and \<open>BIGINT\<close>; a field of the
  record stands for the exact decimal value that the statement hands to the database
  (\<open>EXCLUDED.*\<close>), so prices are rationals and times are integers. The field \<open>open\<close> of
  the source is \<open>open_c\<close> here, since \<open>open\<close> is a constant of the library.
\<close>

type_synonym token = string
type_synonym timeframe = string

record candle =
  openTime :: int
  open_c :: rat
  high :: rat
  low :: rat
  close :: rat
  volume :: rat
  closeTime :: int
  quoteVolume :: rat
  trades :: int
  takerBuyBaseVolume :: rat
  takerBuyQuoteVolume :: rat

text \<open>
  The well-formedness of a candle: the high is at least the open and the close, the low
  at most.
\<close>

definition ohlc_ok :: "candle \<Rightarrow> bool" where
  "ohlc_ok c \<longleftrightarrow> high c \<ge> max (open_c c) (close c) \<and> low c \<le> min (open_c c) (close c)"

text \<open>
  A row of \<open>candlesticks\<close>: the columns \<open>token\<close>, \<open>timeframe\<close> and the eleven candle
  columns (\<open>id\<close> and \<open>created_at\<close> are read nowhere in the engine). The table is the
  list of its rows; \<open>UNIQUE(token, timeframe, open_time)\<close> is the invariant
  \<open>unique_keys\<close>.
\<close>

record row =
  token :: token
  timeframe :: timeframe
  candle :: candle

type_synonym table = "row list"

definition conflicts :: "token \<Rightarrow> timeframe \<Rightarrow> int \<Rightarrow> row \<Rightarrow> bool" where
  "conflicts tok tf ot r \<longleftrightarrow> token r = tok \<and> timeframe r = tf \<and> openTime (candle r) = ot"

definition row_key :: "row \<Rightarrow> token \<times> timeframe \<times> int" where
  "row_key r = (token r, timeframe r, openTime (candle r))"

definition unique_keys :: "table \<Rightarrow> bool" where
  "unique_keys tbl \<longleftrightarrow> distinct (map row_key tbl)"

text \<open>The stored candle of a key, if the table has a row for it.\<close>

definition stored :: "table \<Rightarrow> token \<Rightarrow> timeframe \<Rightarrow> int \<Rightarrow> candle option" where
  "stored tbl tok tf ot = map_option candle (find (conflicts tok tf ot) tbl)"

text \<open>
  The \<open>DO UPDATE SET\<close> list of \<open>saveCandle\<close>: \<open>GREATEST\<close> and \<open>LEAST\<close> for high and
  low, the incoming value for close, volume, close_time, quote_volume, trades and the two
  taker-buy columns. \<open>open\<close> and \<open>open_time\<close> are not in the list and keep the stored
  value.
\<close>

definition do_update :: "candle \<Rightarrow> candle \<Rightarrow> candle" where
  "do_update s c = s\<lparr>
     high := max (high s) (high c),
     low := min (low s) (low c),
     close := close c,
     volume := volume c,
     closeTime := closeTime c,
     quoteVolume := quoteVolume c,
     trades := trades c,
     takerBuyBaseVolume := takerBuyBaseVolume c,
     takerBuyQuoteVolume := takerBuyQuoteVolume c\<rparr>"

text \<open>
  The statement \<open>INSERT ... ON CONFLICT (token, timeframe, open_time) DO UPDATE SET ...
  WHERE candlesticks.close_time < EXCLUDED.close_time\<close>: without a conflicting row the
  candle is inserted; with one, the row is updated when the \<open>WHERE\<close> condition holds and
  left alone otherwise.
\<close>

fun upsert :: "token \<Rightarrow> timeframe \<Rightarrow> candle \<Rightarrow> table \<Rightarrow> table" where
  "upsert tok tf c [] = [\<lparr>token = tok, timeframe = tf, candle = c\<rparr>]"
| "upsert tok tf c (r # rs) =
     (if conflicts tok tf (openTime c) r
      then (if closeTime (candle r) < closeTime c
            then r\<lparr>candle := do_update (candle r) c\<rparr> else r) # rs
      else r # upsert tok tf c rs)"


subsection \<open>The environment of the engine\<close>

text \<open>
  What the engine does not decide itself: the clock (\<open>Date.now()\<close>), whether
  \<open>pool.query\<close> rejects a statement (with the message of the error), and what the
  upstream API answers to \<open>fetchKlines(symbol, interval, limit, startTime, endTime)\<close>:
  a rejection with its message, or a page of candles.
\<close>

record env =
  now :: int
  read_fault :: "token \<Rightarrow> timeframe \<Rightarrow> string option"
  write_fault :: "token \<Rightarrow> timeframe \<Rightarrow> candle \<Rightarrow> string option"
  fetchKlines :: "string \<Rightarrow> timeframe \<Rightarrow> int \<Rightarrow> int \<Rightarrow> int \<Rightarrow> string + candle list"

text \<open>
  \<open>saveCandle\<close> awaits the one query and has no handler of its own: a rejection is
  thrown to the caller (\<open>Inl\<close>) and the table is as before, a success leaves the table
  as the statement made it.
\<close>

definition saveCandle :: "env \<Rightarrow> token \<Rightarrow> timeframe \<Rightarrow> candle \<Rightarrow> table \<Rightarrow> string + table" where
  "saveCandle ev tok tf c tbl =
     (case write_fault ev tok tf c of
        Some msg \<Rightarrow> Inl msg
      | None \<Rightarrow> Inr (upsert tok tf c tbl))"

section \<open>Gap detection: \<open>DataManager.findDataGaps\<close>\<close>

record gap =
  start :: int
  end_g :: int
  missingIntervals :: int

definition intervalMs :: "timeframe \<Rightarrow> int" where
  "intervalMs tf =
     (if tf = ''5m'' then 5 * 60 * 1000
      else if tf = ''1h'' then 60 * 60 * 1000
      else 24 * 60 * 60 * 1000)"

definition startTime :: "int \<Rightarrow> timeframe \<Rightarrow> int" where
  "startTime t tf =
     (if tf = ''5m'' then t - (1 * 24 * 60 * 60 * 1000)
      else if tf = ''1h'' then t - (7 * 24 * 60 * 60 * 1000)
      else t - (90 * 24 * 60 * 60 * 1000))"

text \<open>
  \<open>SELECT open_time FROM candlesticks WHERE token = $1 AND timeframe = $2
  ORDER BY open_time ASC\<close>.
\<close>

definition select_open_times :: "table \<Rightarrow> token \<Rightarrow> timeframe \<Rightarrow> int list" where
  "select_open_times tbl tok tf =
     sort (map (\<lambda>r. openTime (candle r)) (filter (\<lambda>r. token r = tok \<and> timeframe r = tf) tbl))"

text \<open>
  The loop \<open>for (let i = 1; i < rows.length; i++)\<close> over consecutive rows. The count is
  \<open>Math.floor((currTime - expectedTime) / intervalMs)\<close> with a positive numerator and
  denominator, which is integer division.
\<close>

fun gaps_between :: "int \<Rightarrow> int list \<Rightarrow> gap list" where
  "gaps_between d (prevTime # currTime # rest) =
     (let expectedTime = prevTime + d in
      (if currTime > expectedTime
       then [\<lparr>start = expectedTime, end_g = currTime - d,
              missingIntervals = (currTime - expectedTime) div d\<rparr>]
       else []) @ gaps_between d (currTime # rest))"
| "gaps_between d rows = []"

definition trailing_gap :: "int \<Rightarrow> int \<Rightarrow> int \<Rightarrow> gap list" where
  "trailing_gap d t lastTime =
     (let expectedLastTime = lastTime + d in
      if t > expectedLastTime + d
      then [\<lparr>start = expectedLastTime, end_g = t,
             missingIntervals = (t - expectedLastTime) div d\<rparr>]
      else [])"

definition gaps_of_rows :: "int \<Rightarrow> timeframe \<Rightarrow> int list \<Rightarrow> gap list" where
  "gaps_of_rows t tf rows =
     (if rows = []
      then [\<lparr>start = startTime t tf, end_g = t,
             missingIntervals = (t - startTime t tf) div intervalMs tf\<rparr>]
      else gaps_between (intervalMs tf) rows @ trailing_gap (intervalMs tf) t (last rows))"

text \<open>A rejected query is thrown to the caller: \<open>findDataGaps\<close> has no handler.\<close>

definition findDataGaps :: "env \<Rightarrow> table \<Rightarrow> token \<Rightarrow> timeframe \<Rightarrow> string + gap list" where
  "findDataGaps ev tbl tok tf =
     (case read_fault ev tok tf of
        Some msg \<Rightarrow> Inl msg
      | None \<Rightarrow> Inr (gaps_of_rows (now ev) tf (select_open_times tbl tok tf)))"

section \<open>Backfill: \<open>DataManager.fillGaps\<close>\<close>

record fill_result =
  candlesFilled :: nat
  errors :: "string list"

text \<open>
  \<open>for (const kline of klines) await this.saveCandle(token, timeframe, kline)\<close>: the
  first rejected write ends the loop with its message; the writes before it stay.
\<close>

fun save_klines :: "env \<Rightarrow> token \<Rightarrow> timeframe \<Rightarrow> candle list \<Rightarrow> table \<Rightarrow> string option \<times> table" where
  "save_klines ev tok tf [] tbl = (None, tbl)"
| "save_klines ev tok tf (kline # klines) tbl =
     (case saveCandle ev tok tf kline tbl of
        Inl msg \<Rightarrow> (Some msg, tbl)
      | Inr tbl' \<Rightarrow> save_klines ev tok tf klines tbl')"

text \<open>
  The body of the \<open>try\<close> block for one gap: the paging loop
  \<open>while (currentStart < gap.end)\<close>. The result is the message of the exception that
  left the loop, if any, with the table and the counter \<open>candlesFilled\<close> as they are at
  that moment. Nothing in the source bounds the number of pages (a page whose last
  \<open>closeTime\<close> is below \<open>currentStart\<close> repeats the request), so the loop takes fuel, one
  unit for each evaluation of the loop condition, and \<open>None\<close> says that it was not enough.
\<close>

fun fill_pages ::
  "nat \<Rightarrow> env \<Rightarrow> string \<Rightarrow> token \<Rightarrow> timeframe \<Rightarrow> int \<Rightarrow> int \<Rightarrow> int \<Rightarrow> table \<Rightarrow> nat
     \<Rightarrow> (string option \<times> table \<times> nat) option" where
  "fill_pages 0 ev symbol tok tf maxCandles currentStart gap_end tbl filled = None"
| "fill_pages (Suc n) ev symbol tok tf maxCandles currentStart gap_end tbl filled =
     (if currentStart < gap_end then
        (case fetchKlines ev symbol tf (min maxCandles 1000) currentStart gap_end of
           Inl msg \<Rightarrow> Some (Some msg, tbl, filled)
         | Inr klines \<Rightarrow>
             if length klines = 0 then Some (None, tbl, filled)
             else (case save_klines ev tok tf klines tbl of
                     (Some msg, tbl') \<Rightarrow> Some (Some msg, tbl', filled)
                   | (None, tbl') \<Rightarrow>
                       fill_pages n ev symbol tok tf maxCandles
                         (closeTime (last klines) + 1) gap_end tbl' (filled + length klines)))
      else Some (None, tbl, filled))"

text \<open>
  One round of \<open>for (const gap of gaps)\<close>, \<open>try\<close> and \<open>catch\<close> together: an exception of
  the paging loop becomes an entry of \<open>errors\<close> and the round ends normally.
\<close>

definition fill_gap ::
  "nat \<Rightarrow> env \<Rightarrow> string \<Rightarrow> token \<Rightarrow> timeframe \<Rightarrow> int \<Rightarrow> gap \<Rightarrow> table \<times> nat \<times> string list
     \<Rightarrow> (table \<times> nat \<times> string list) option" where
  "fill_gap fuel ev symbol tok tf maxCandles g st =
     (case st of (tbl, filled, errs) \<Rightarrow>
        (case fill_pages fuel ev symbol tok tf maxCandles (start g) (end_g g) tbl filled of
           None \<Rightarrow> None
         | Some (None, tbl', filled') \<Rightarrow> Some (tbl', filled', errs)
         | Some (Some msg, tbl', filled') \<Rightarrow> Some (tbl', filled', errs @ [msg])))"

fun fill_gap_list ::
  "nat \<Rightarrow> env \<Rightarrow> string \<Rightarrow> token \<Rightarrow> timeframe \<Rightarrow> int \<Rightarrow> gap list \<Rightarrow> table \<times> nat \<times> string list
     \<Rightarrow> (table \<times> nat \<times> string list) option" where
  "fill_gap_list fuel ev symbol tok tf maxCandles [] st = Some st"
| "fill_gap_list fuel ev symbol tok tf maxCandles (g # gaps) st =
     (case fill_gap fuel ev symbol tok tf maxCandles g st of
        None \<Rightarrow> None
      | Some st' \<Rightarrow> fill_gap_list fuel ev symbol tok tf maxCandles gaps st')"

text \<open>
  \<open>marketConfig\<close> is the object \<open>{token: {symbol}}\<close>, here the list of its entries in
  the order of \<open>Object.keys\<close>. \<open>this.marketConfig[token]?.symbol\<close> is falsy for a token
  without entry and for an empty symbol.
\<close>

type_synonym market_config = "(token \<times> string) list"

definition symbol_of :: "market_config \<Rightarrow> token \<Rightarrow> string option" where
  "symbol_of cfg tok =
     (case map_of cfg tok of
        None \<Rightarrow> None
      | Some symbol \<Rightarrow> if symbol = [] then None else Some symbol)"

text \<open>
  \<open>fillGaps\<close> returns its result (\<open>Inr\<close>) or throws (\<open>Inl\<close>); the only statement outside
  the \<open>try\<close> block that can throw is the call of \<open>findDataGaps\<close>.
\<close>

definition fillGaps ::
  "nat \<Rightarrow> env \<Rightarrow> market_config \<Rightarrow> token \<Rightarrow> timeframe \<Rightarrow> int \<Rightarrow> table
     \<Rightarrow> ((string + fill_result) \<times> table) option" where
  "fillGaps fuel ev cfg tok tf maxCandles tbl =
     (case symbol_of cfg tok of
        None \<Rightarrow> Some (Inr \<lparr>candlesFilled = 0, errors = [''Unknown token: '' @ tok]\<rparr>, tbl)
      | Some symbol \<Rightarrow>
          (case findDataGaps ev tbl tok tf of
             Inl msg \<Rightarrow> Some (Inl msg, tbl)
           | Inr gaps \<Rightarrow>
               if length gaps = 0 then Some (Inr \<lparr>candlesFilled = 0, errors = []\<rparr>, tbl)
               else (case fill_gap_list fuel ev symbol tok tf maxCandles gaps (tbl, 0, []) of
                       None \<Rightarrow> None
                     | Some (tbl', filled, errs) \<Rightarrow>
                         Some (Inr \<lparr>candlesFilled = filled, errors = errs\<rparr>, tbl'))))"


text \<open>
  The upstream advances when the last candle of every non-empty page closes at or after
  the requested start: then \<open>currentStart\<close> grows with every page and the paging loop
  ends.
\<close>

definition pages_advance :: "env \<Rightarrow> string \<Rightarrow> timeframe \<Rightarrow> int \<Rightarrow> bool" where
  "pages_advance ev symbol tf limit \<longleftrightarrow>
     (\<forall>currentStart gap_end klines.
        fetchKlines ev symbol tf limit currentStart gap_end = Inr klines \<and> klines \<noteq> []
          \<longrightarrow> currentStart \<le> closeTime (last klines))"

section \<open>The pass over all pairs: \<open>DataManager.fillAllGaps\<close>\<close>

text \<open>
  The fields of a \<open>DataManager\<close>: the pool (its table \<open>candlesticks\<close>), the market
  configuration and the flag \<open>isFillingGaps\<close>, which the constructor sets to false.
\<close>

record data_manager =
  pool :: table
  marketConfig :: market_config
  isFillingGaps :: bool

definition new_DataManager :: "table \<Rightarrow> market_config \<Rightarrow> data_manager" where
  "new_DataManager tbl cfg = \<lparr>pool = tbl, marketConfig = cfg, isFillingGaps = False\<rparr>"

text \<open>
  An entry of the result: what \<open>fillGaps\<close> returned, or the object
  \<open>{token, timeframe, error}\<close> that the \<open>catch\<close> handler makes of a rejection.
\<close>

datatype pair_result = Filled fill_result | Failed token timeframe string

text \<open>
  The nested loops \<open>for (const token of tokens) for (const timeframe of timeframes)\<close>
  push one call of \<open>fillGaps(token, timeframe)\<close> each.
\<close>

definition timeframes :: "timeframe list" where
  "timeframes = [''5m'', ''1h'', ''1d'']"

definition all_pairs :: "market_config \<Rightarrow> (token \<times> timeframe) list" where
  "all_pairs cfg = concat (map (\<lambda>tok. map (\<lambda>tf. (tok, tf)) timeframes) (map fst cfg))"

text \<open>
  The calls of one pass, with \<open>maxCandles\<close> at its default 1000. The source starts them
  together and awaits \<open>Promise.all\<close>; each call reads and writes only rows of its own
  (token, timeframe), so the calls are taken one after the other in the order of the
  results.
\<close>

fun run_pairs ::
  "nat \<Rightarrow> env \<Rightarrow> market_config \<Rightarrow> (token \<times> timeframe) list \<Rightarrow> table
     \<Rightarrow> (pair_result list \<times> table) option" where
  "run_pairs fuel ev cfg [] tbl = Some ([], tbl)"
| "run_pairs fuel ev cfg (p # ps) tbl =
     (case fillGaps fuel ev cfg (fst p) (snd p) 1000 tbl of
        None \<Rightarrow> None
      | Some (res, tbl') \<Rightarrow>
          (case run_pairs fuel ev cfg ps tbl' of
             None \<Rightarrow> None
           | Some (results, tbl'') \<Rightarrow>
               Some ((case res of
                        Inl msg \<Rightarrow> Failed (fst p) (snd p) msg
                      | Inr r \<Rightarrow> Filled r) # results, tbl'')))"

text \<open>
  The part of \<open>fillAllGaps\<close> before its first \<open>await\<close>: with the flag set it returns the
  empty list (\<open>Inl\<close>), else it sets the flag and goes on (\<open>Inr\<close>). The \<open>finally\<close> block
  of a pass that went on clears the flag.
\<close>

definition fillAllGaps_enter :: "data_manager \<Rightarrow> pair_result list + data_manager" where
  "fillAllGaps_enter dm =
     (if isFillingGaps dm then Inl [] else Inr (dm\<lparr>isFillingGaps := True\<rparr>))"

definition fillAllGaps_finally :: "data_manager \<Rightarrow> data_manager" where
  "fillAllGaps_finally dm = dm\<lparr>isFillingGaps := False\<rparr>"

definition fillAllGaps ::
  "nat \<Rightarrow> env \<Rightarrow> data_manager \<Rightarrow> (pair_result list \<times> data_manager) option" where
  "fillAllGaps fuel ev dm =
     (case fillAllGaps_enter dm of
        Inl results \<Rightarrow> Some (results, dm)
      | Inr dm1 \<Rightarrow>
          (case run_pairs fuel ev (marketConfig dm1) (all_pairs (marketConfig dm1)) (pool dm1) of
             None \<Rightarrow> None
           | Some (results, tbl') \<Rightarrow> Some (results, fillAllGaps_finally (dm1\<lparr>pool := tbl'\<rparr>))))"

text \<open>
  The process runs one task at a time and a task gives way only at an \<open>await\<close>, so the
  history of a \<open>DataManager\<close> is a sequence of events: a call of \<open>fillAllGaps\<close> runs up
  to its first \<open>await\<close> (\<open>Invoke\<close>); the \<open>Promise.all\<close> of a running pass settles and its
  \<open>finally\<close> block runs (\<open>Settle\<close>); some task writes a candle in between (\<open>Write\<close>).
  \<open>running\<close> counts the passes that are between their \<open>Invoke\<close> and their \<open>Settle\<close>; it
  is not a variable of the source.
\<close>

datatype event = Invoke | Settle | Write token timeframe candle

record process =
  manager :: data_manager
  running :: nat

fun step :: "process \<Rightarrow> event \<Rightarrow> process" where
  "step p Invoke =
     (case fillAllGaps_enter (manager p) of
        Inl results \<Rightarrow> p
      | Inr dm1 \<Rightarrow> p\<lparr>manager := dm1, running := running p + 1\<rparr>)"
| "step p Settle =
     (if running p = 0 then p
      else p\<lparr>manager := fillAllGaps_finally (manager p), running := running p - 1\<rparr>)"
| "step p (Write tok tf c) =
     p\<lparr>manager := (manager p)\<lparr>pool := upsert tok tf c (pool (manager p))\<rparr>\<rparr>"

definition run :: "table \<Rightarrow> market_config \<Rightarrow> event list \<Rightarrow> process" where
  "run tbl cfg events = foldl step \<lparr>manager = new_DataManager tbl cfg, running = 0\<rparr> events"

text \<open>
  The invariant of the flag: at most one pass is running, and the flag is set exactly
  while one is.
\<close>

definition guard_invariant :: "process \<Rightarrow> bool" where
  "guard_invariant p \<longleftrightarrow>
     running p \<le> 1 \<and> (isFillingGaps (manager p) \<longleftrightarrow> running p = 1)"

section \<open>Stream ingestion: the \<open>message\<close> handler of \<open>connectToBinance\<close>\<close>

text \<open>The constant \<open>MARKET_CONFIG\<close> of the server.\<close>

definition MARKET_CONFIG :: market_config where
  "MARKET_CONFIG =
     [(''BTC'', ''btcusdt''), (''ETH'', ''ethusdt''), (''SOL'', ''solusdt''), (''ADA'', ''adausdt'')]"

text \<open>
  The kline object \<open>k\<close> of a frame, with the fields the handler reads (numbers as
  \<open>parseFloat\<close> yields them) and the interval \<open>i\<close> of the stream that sent it, which the
  handler does not read. A frame is \<open>parsed.data\<close>: its event type \<open>e\<close>, its symbol \<open>s\<close>
  and \<open>k\<close>, which may be missing.
\<close>

record kline =
  k_t :: int
  k_T :: int
  k_i :: string
  k_o :: rat
  k_h :: rat
  k_l :: rat
  k_c :: rat
  k_v :: rat
  k_q :: rat
  k_n :: int
  k_V :: rat
  k_Q :: rat

record message =
  msg_e :: string
  msg_s :: string
  msg_k :: "kline option"

text \<open>\<open>String.prototype.toUpperCase\<close> on the ASCII letters of a symbol.\<close>

definition toUpperCase :: "string \<Rightarrow> string" where
  "toUpperCase str =
     map (\<lambda>ch. let n = (of_char ch :: nat) in
                if 97 \<le> n \<and> n \<le> 122 then char_of (n - 32) else ch) str"

text \<open>The three stream lists of the subscription, before they are joined with \<open>/\<close>.\<close>

definition allStreams :: "market_config \<Rightarrow> string list" where
  "allStreams cfg =
     map (\<lambda>entry. snd entry @ ''@kline_5m'') cfg
     @ map (\<lambda>entry. snd entry @ ''@kline_1h'') cfg
     @ map (\<lambda>entry. snd entry @ ''@kline_1d'') cfg"

definition candle_of_kline :: "kline \<Rightarrow> candle" where
  "candle_of_kline k = \<lparr>
     openTime = k_t k, open_c = k_o k, high = k_h k, low = k_l k, close = k_c k,
     volume = k_v k, closeTime = k_T k, quoteVolume = k_q k, trades = k_n k,
     takerBuyBaseVolume = k_V k, takerBuyQuoteVolume = k_Q k\<rparr>"

definition find_token :: "market_config \<Rightarrow> string \<Rightarrow> token option" where
  "find_token cfg s = map_option fst (find (\<lambda>entry. toUpperCase (snd entry) = s) cfg)"

text \<open>
  The handler on the table \<open>candlesticks\<close>. An exception of \<open>saveCandle\<close> is caught and
  logged by the handler's own \<open>try\<close>; \<open>updateCurrentPrice\<close> writes \<open>current_prices\<close> only.
\<close>

definition on_message :: "env \<Rightarrow> market_config \<Rightarrow> message option \<Rightarrow> table \<Rightarrow> table" where
  "on_message ev cfg data tbl =
     (case data of
        None \<Rightarrow> tbl
      | Some m \<Rightarrow>
          (case msg_k m of
             None \<Rightarrow> tbl
           | Some k \<Rightarrow>
               if msg_e m = ''kline'' then
                 (case find_token cfg (msg_s m) of
                    None \<Rightarrow> tbl
                  | Some tok \<Rightarrow>
                      if tok = [] then tbl
                      else (case saveCandle ev tok ''5m'' (candle_of_kline k) tbl of
                              Inl msg \<Rightarrow> tbl
                            | Inr tbl' \<Rightarrow> tbl'))
               else tbl))"


section \<open>Example data\<close>

text \<open>A candle with the given times, prices and volume, and a row of BTC hourly candles.\<close>

definition ex_candle :: "int \<Rightarrow> int \<Rightarrow> rat \<Rightarrow> rat \<Rightarrow> rat \<Rightarrow> rat \<Rightarrow> rat \<Rightarrow> candle" where
  "ex_candle ot ct op h l c v = \<lparr>openTime = ot, open_c = op, high = h, low = l, close = c,
     volume = v, closeTime = ct, quoteVolume = v * c, trades = 7,
     takerBuyBaseVolume = v / 2, takerBuyQuoteVolume = v * c / 2\<rparr>"

definition ex_row :: "candle \<Rightarrow> row" where
  "ex_row c = \<lparr>token = ''BTC'', timeframe = ''1h'', candle = c\<rparr>"

text \<open>
  An environment at a given time in which no query is rejected and the upstream has no
  candles; a table of candles of one series at given open times; the hour marks of
  2024-01-01 (UTC) in epoch milliseconds.
\<close>

definition ex_env :: "int \<Rightarrow> env" where
  "ex_env t = \<lparr>now = t, read_fault = (\<lambda>tok tf. None), write_fault = (\<lambda>tok tf c. None),
     fetchKlines = (\<lambda>symbol tf limit startT endT. Inr [])\<rparr>"

definition ex_table :: "token \<Rightarrow> timeframe \<Rightarrow> int list \<Rightarrow> table" where
  "ex_table tok tf ots =
     map (\<lambda>ot. \<lparr>token = tok, timeframe = tf, candle = ex_candle ot (ot + 1) 95 100 90 99 1\<rparr>) ots"

definition ex_hour :: "int \<Rightarrow> int" where
  "ex_hour h = 1704067200000 + h * 3600000"

text \<open>A kline frame of a given symbol, stream interval and open time.\<close>

definition ex_kline :: "string \<Rightarrow> int \<Rightarrow> kline" where
  "ex_kline interval t = \<lparr>k_t = t, k_T = t + 3599999, k_i = interval, k_o = 95, k_h = 100,
     k_l = 90, k_c = 99, k_v = 1, k_q = 99, k_n = 7, k_V = 1 / 2, k_Q = 99 / 2\<rparr>"

definition ex_message :: "string \<Rightarrow> string \<Rightarrow> int \<Rightarrow> message" where
  "ex_message s interval t = \<lparr>msg_e = ''kline'', msg_s = s, msg_k = Some (ex_kline interval t)\<rparr>"

text \<open>
  An upstream that rejects the request starting at 01:00 and has the candles of 04:00 and
  05:00; environments with this upstream, the second with a pool that rejects every
  write; a gap between two hour marks.
\<close>

definition ex_upstream :: "string \<Rightarrow> timeframe \<Rightarrow> int \<Rightarrow> int \<Rightarrow> int \<Rightarrow> string + candle list" where
  "ex_upstream symbol tf limit startT endT =
     (if startT = ex_hour 1 then Inl ''HTTP 500: busy''
      else if startT \<le> ex_hour 4
      then Inr [ex_candle (ex_hour 4) (ex_hour 4 + 3599999) 95 100 90 99 1,
                ex_candle (ex_hour 5) (ex_hour 5 + 3599999) 99 120 98 110 2]
      else Inr [])"

definition ex_env_upstream :: "int \<Rightarrow> env" where
  "ex_env_upstream t = (ex_env t)\<lparr>fetchKlines := ex_upstream\<rparr>"

definition ex_env_rejecting :: "int \<Rightarrow> env" where
  "ex_env_rejecting t = (ex_env_upstream t)\<lparr>write_fault := (\<lambda>tok tf c. Some ''Database error'')\<rparr>"

definition ex_gap :: "int \<Rightarrow> int \<Rightarrow> int \<Rightarrow> gap" where
  "ex_gap h1 h2 n = \<lparr>start = ex_hour h1, end_g = ex_hour h2, missingIntervals = n\<rparr>"

text \<open>
  An upstream with the candles of 01:00 and 02:00 and of 04:00 and 05:00, and an
  environment with it whose pool rejects the write of the candle of one hour.
\<close>

definition ex_upstream_pages :: "string \<Rightarrow> timeframe \<Rightarrow> int \<Rightarrow> int \<Rightarrow> int \<Rightarrow> string + candle list" where
  "ex_upstream_pages symbol tf limit startT endT =
     (if startT \<le> ex_hour 1
      then Inr [ex_candle (ex_hour 1) (ex_hour 1 + 3599999) 95 100 90 99 1,
                ex_candle (ex_hour 2) (ex_hour 2 + 3599999) 99 101 97 100 2]
      else if startT \<le> ex_hour 4
      then Inr [ex_candle (ex_hour 4) (ex_hour 4 + 3599999) 95 100 90 99 1,
                ex_candle (ex_hour 5) (ex_hour 5 + 3599999) 99 120 98 110 2]
      else Inr [])"

definition ex_env_rejecting_hour :: "int \<Rightarrow> int \<Rightarrow> env" where
  "ex_env_rejecting_hour h t = (ex_env t)\<lparr>fetchKlines := ex_upstream_pages,
     write_fault := (\<lambda>tok tf c. if openTime c = ex_hour h then Some ''Database error'' else None)\<rparr>"

section \<open>Properties of the store\<close>

lemma conflicts_do_update:
  "conflicts tok tf ot (r\<lparr>candle := do_update (candle r) c\<rparr>) = conflicts tok tf ot r"
  by (simp add: conflicts_def do_update_def)

lemma stored_upsert_same:
  "stored (upsert tok tf c tbl) tok tf (openTime c) =
     Some (case stored tbl tok tf (openTime c) of
             None \<Rightarrow> c
           | Some s \<Rightarrow> if closeTime s < closeTime c then do_update s c else s)"
  by (induction tbl) (auto simp: stored_def conflicts_do_update, simp add: conflicts_def)

lemma set_row_key_upsert:
  "set (map row_key (upsert tok tf c tbl)) = insert (tok, tf, openTime c) (set (map row_key tbl))"
  by (induction tbl) (auto simp: row_key_def conflicts_def do_update_def)

text \<open>The upsert keeps \<open>UNIQUE(token, timeframe, open_time)\<close>.\<close>

lemma unique_keys_upsert: "unique_keys tbl \<Longrightarrow> unique_keys (upsert tok tf c tbl)"
proof (induction tbl)
  case Nil
  then show ?case by (simp add: unique_keys_def)
next
  case (Cons r rs)
  show ?case
  proof (cases "conflicts tok tf (openTime c) r")
    case True
    with Cons.prems show ?thesis
      by (auto simp: unique_keys_def row_key_def do_update_def)
  next
    case False
    then have "row_key r \<noteq> (tok, tf, openTime c)"
      by (auto simp: row_key_def conflicts_def)
    with False Cons show ?thesis
      using set_row_key_upsert [of tok tf c rs] by (auto simp: unique_keys_def)
  qed
qed

lemma upsert_noop:
  "stored tbl tok tf (openTime c) = Some s \<Longrightarrow> closeTime c \<le> closeTime s \<Longrightarrow> upsert tok tf c tbl = tbl"
  by (induction tbl) (auto simp: stored_def split: if_splits)

text \<open>
  C1. For every key (token, timeframe, openTime): without a stored row, the upsert stores
  the incoming candle; with a stored row of strictly smaller closeTime, the stored candle
  gets the larger high and the smaller low, and close, volume, closeTime, quoteVolume,
  trades and the two taker-buy fields of the incoming candle; with a stored row whose
  closeTime is not smaller, the table is unchanged. \<open>saveCandle\<close> leaves the table of
  this upsert whenever the pool does not reject the statement. (So a later write with high 90 on a
  stored high 100 leaves 100, and a later write with high 150 makes it 150: the
  instances of the witness.)
\<close>

theorem upsert_insert_merge_noop:
  "(stored tbl tok tf (openTime c) = None \<longrightarrow>
      stored (upsert tok tf c tbl) tok tf (openTime c) = Some c) \<and>
   (\<forall>s. stored tbl tok tf (openTime c) = Some s \<and> closeTime s < closeTime c \<longrightarrow>
      stored (upsert tok tf c tbl) tok tf (openTime c) =
        Some (s\<lparr>high := max (high s) (high c), low := min (low s) (low c),
                close := close c, volume := volume c, closeTime := closeTime c,
                quoteVolume := quoteVolume c, trades := trades c,
                takerBuyBaseVolume := takerBuyBaseVolume c,
                takerBuyQuoteVolume := takerBuyQuoteVolume c\<rparr>)) \<and>
   (\<forall>s. stored tbl tok tf (openTime c) = Some s \<and> closeTime c \<le> closeTime s \<longrightarrow>
      upsert tok tf c tbl = tbl) \<and>
   (write_fault ev tok tf c = None \<longrightarrow> saveCandle ev tok tf c tbl = Inr (upsert tok tf c tbl))"
  using stored_upsert_same [of tok tf c tbl] upsert_noop [of tbl tok tf c]
  by (auto simp: do_update_def saveCandle_def)

lemmas ex_simps = ex_candle_def ex_row_def stored_def conflicts_def

theorem upsert_insert_merge_noop_witness:
  "stored [] ''BTC'' ''1h'' 0 = None \<and>
   stored (upsert ''BTC'' ''1h'' (ex_candle 0 10 95 100 90 99 1) []) ''BTC'' ''1h'' 0
     = Some (ex_candle 0 10 95 100 90 99 1) \<and>
   stored [ex_row (ex_candle 0 10 95 100 90 99 1)] ''BTC'' ''1h'' 0
     = Some (ex_candle 0 10 95 100 90 99 1) \<and>
   stored (upsert ''BTC'' ''1h'' (ex_candle 0 20 96 90 80 85 2) [ex_row (ex_candle 0 10 95 100 90 99 1)])
       ''BTC'' ''1h'' 0
     = Some (ex_candle 0 20 95 100 80 85 2) \<and>
   stored (upsert ''BTC'' ''1h'' (ex_candle 0 30 97 150 85 140 3) [ex_row (ex_candle 0 20 95 100 80 85 2)])
       ''BTC'' ''1h'' 0
     = Some (ex_candle 0 30 95 150 80 140 3) \<and>
   upsert ''BTC'' ''1h'' (ex_candle 0 20 96 90 80 85 2) [ex_row (ex_candle 0 30 95 150 80 140 3)]
     = [ex_row (ex_candle 0 30 95 150 80 140 3)] \<and>
   write_fault (ex_env 0) ''BTC'' ''1h'' (ex_candle 0 10 95 100 90 99 1) = None \<and>
   saveCandle (ex_env 0) ''BTC'' ''1h'' (ex_candle 0 10 95 100 90 99 1) []
     = Inr [ex_row (ex_candle 0 10 95 100 90 99 1)]"
proof -
  have e: "stored [] ''BTC'' ''1h'' 0 = None"
    by (simp add: stored_def)
  have w: "write_fault (ex_env 0) ''BTC'' ''1h'' (ex_candle 0 10 95 100 90 99 1) = None"
    by (simp add: ex_env_def)
  have s1: "stored [ex_row (ex_candle 0 10 95 100 90 99 1)] ''BTC'' ''1h'' 0
      = Some (ex_candle 0 10 95 100 90 99 1)"
    by (simp add: ex_simps)
  have s2: "stored [ex_row (ex_candle 0 20 95 100 80 85 2)] ''BTC'' ''1h'' 0
      = Some (ex_candle 0 20 95 100 80 85 2)"
    by (simp add: ex_simps)
  have s3: "stored [ex_row (ex_candle 0 30 95 150 80 140 3)] ''BTC'' ''1h'' 0
      = Some (ex_candle 0 30 95 150 80 140 3)"
    by (simp add: ex_simps)
  have ot: "\<And>ct op h l c v. openTime (ex_candle 0 ct op h l c v) = 0"
    by (simp add: ex_candle_def)
  note t1 = upsert_insert_merge_noop [of "[]" "''BTC''" "''1h''" "ex_candle 0 10 95 100 90 99 1"
      "ex_env 0"]
  note t2 = upsert_insert_merge_noop [of "[ex_row (ex_candle 0 10 95 100 90 99 1)]" "''BTC''" "''1h''"
      "ex_candle 0 20 96 90 80 85 2"]
  note t3 = upsert_insert_merge_noop [of "[ex_row (ex_candle 0 20 95 100 80 85 2)]" "''BTC''" "''1h''"
      "ex_candle 0 30 97 150 85 140 3"]
  note t4 = upsert_insert_merge_noop [of "[ex_row (ex_candle 0 30 95 150 80 140 3)]" "''BTC''" "''1h''"
      "ex_candle 0 20 96 90 80 85 2"]
  have c1: "stored (upsert ''BTC'' ''1h'' (ex_candle 0 10 95 100 90 99 1) []) ''BTC'' ''1h'' 0
     = Some (ex_candle 0 10 95 100 90 99 1)"
    using t1 e by (simp add: ex_candle_def del: upsert.simps)
  have c2: "stored (upsert ''BTC'' ''1h'' (ex_candle 0 20 96 90 80 85 2) [ex_row (ex_candle 0 10 95 100 90 99 1)])
       ''BTC'' ''1h'' 0 = Some (ex_candle 0 20 95 100 80 85 2)"
    using t2 s1 by (simp add: ex_candle_def del: upsert.simps)
  have c3: "stored (upsert ''BTC'' ''1h'' (ex_candle 0 30 97 150 85 140 3) [ex_row (ex_candle 0 20 95 100 80 85 2)])
       ''BTC'' ''1h'' 0 = Some (ex_candle 0 30 95 150 80 140 3)"
    using t3 s2 by (simp add: ex_candle_def del: upsert.simps)
  have c4: "upsert ''BTC'' ''1h'' (ex_candle 0 20 96 90 80 85 2) [ex_row (ex_candle 0 30 95 150 80 140 3)]
     = [ex_row (ex_candle 0 30 95 150 80 140 3)]"
    using t4 s3 by (simp add: ex_candle_def del: upsert.simps)
  have c5: "saveCandle (ex_env 0) ''BTC'' ''1h'' (ex_candle 0 10 95 100 90 99 1) []
     = Inr [ex_row (ex_candle 0 10 95 100 90 99 1)]"
    using t1 w by (simp add: ex_row_def)
  show ?thesis using e s1 c1 c2 c3 c4 w c5 by simp
qed

lemma ohlc_ok_do_update: "ohlc_ok s \<Longrightarrow> ohlc_ok c \<Longrightarrow> ohlc_ok (do_update s c)"
  by (auto simp: ohlc_ok_def do_update_def)

text \<open>
  C10. For every key: if the incoming candle is well formed (high at least open and
  close, low at most open and close) and the stored candle of the key, when there is
  one, is well formed, then after the upsert the key has a stored candle and it is well
  formed, whether the upsert inserted, merged or did nothing.
\<close>

theorem upsert_preserves_ohlc:
  assumes "ohlc_ok c"
    and "\<forall>s. stored tbl tok tf (openTime c) = Some s \<longrightarrow> ohlc_ok s"
  shows "\<exists>r. stored (upsert tok tf c tbl) tok tf (openTime c) = Some r \<and> ohlc_ok r"
proof (cases "stored tbl tok tf (openTime c)")
  case None
  with assms(1) show ?thesis by (simp add: stored_upsert_same)
next
  case (Some s)
  with assms have "ohlc_ok s" by simp
  with Some assms(1) show ?thesis
    by (simp add: stored_upsert_same ohlc_ok_do_update)
qed

theorem upsert_preserves_ohlc_witness:
  "ohlc_ok (ex_candle 0 20 96 97 80 85 2) \<and>
   stored [ex_row (ex_candle 0 10 95 100 90 99 1)] ''BTC'' ''1h'' 0
     = Some (ex_candle 0 10 95 100 90 99 1) \<and>
   ohlc_ok (ex_candle 0 10 95 100 90 99 1) \<and>
   (\<exists>r. stored (upsert ''BTC'' ''1h'' (ex_candle 0 20 96 97 80 85 2)
              [ex_row (ex_candle 0 10 95 100 90 99 1)]) ''BTC'' ''1h'' 0 = Some r \<and> ohlc_ok r)"
proof -
  have a: "ohlc_ok (ex_candle 0 20 96 97 80 85 2)"
    by (simp add: ohlc_ok_def ex_candle_def)
  have s: "stored [ex_row (ex_candle 0 10 95 100 90 99 1)] ''BTC'' ''1h'' 0
      = Some (ex_candle 0 10 95 100 90 99 1)"
    by (simp add: ex_simps)
  have b: "ohlc_ok (ex_candle 0 10 95 100 90 99 1)"
    by (simp add: ohlc_ok_def ex_candle_def)
  have ot: "openTime (ex_candle 0 20 96 97 80 85 2) = 0"
    by (simp add: ex_candle_def)
  have h: "\<forall>s. stored [ex_row (ex_candle 0 10 95 100 90 99 1)] ''BTC'' ''1h''
        (openTime (ex_candle 0 20 96 97 80 85 2)) = Some s \<longrightarrow> ohlc_ok s"
    using s b by (simp add: ot)
  show ?thesis
    using a s b upsert_preserves_ohlc [OF a h] by (simp add: ot)
qed

text \<open>
  A candle newer than the stored one (or the first of its key) leaves its closeTime in
  the row; after a write, a candle of the same key that is not newer changes nothing.
\<close>

lemma upsert_fresh_closeTime:
  assumes "\<forall>s. stored tbl tok tf (openTime c) = Some s \<longrightarrow> closeTime s < closeTime c"
  shows "\<exists>s'. stored (upsert tok tf c tbl) tok tf (openTime c) = Some s' \<and> closeTime s' = closeTime c"
proof (cases "stored tbl tok tf (openTime c)")
  case None
  then show ?thesis by (simp add: stored_upsert_same)
next
  case (Some s)
  with assms have "closeTime s < closeTime c" by simp
  with Some show ?thesis by (simp add: stored_upsert_same do_update_def)
qed

lemma upsert_first_wins:
  assumes "openTime b = openTime a" and "closeTime b \<le> closeTime a"
  shows "upsert tok tf b (upsert tok tf a tbl) = upsert tok tf a tbl"
proof -
  obtain s' where s': "stored (upsert tok tf a tbl) tok tf (openTime a) = Some s'"
    by (simp add: stored_upsert_same)
  have "closeTime a \<le> closeTime s'"
    using s' by (auto simp: stored_upsert_same do_update_def split: option.splits if_splits)
  with assms s' show ?thesis
    by (intro upsert_noop [of _ _ _ _ s']) auto
qed

text \<open>
  Two ascending sequences of writes to one key leave the same table when, for every
  closeTime newer than the stored one, the first candle with that closeTime is the same
  in both: the candles after it in its group, and the candles not newer than the stored
  one, are dropped by the \<open>WHERE\<close> condition.
\<close>

lemma fold_upsert_leaders:
  assumes "\<forall>c\<in>set xs \<union> set ys. openTime c = ot"
    and "sorted_wrt (\<lambda>a b. closeTime a \<le> closeTime b) xs"
    and "sorted_wrt (\<lambda>a b. closeTime a \<le> closeTime b) ys"
    and "\<forall>t. (\<forall>s. stored tbl tok tf ot = Some s \<longrightarrow> closeTime s < t) \<longrightarrow>
           find (\<lambda>c. closeTime c = t) xs = find (\<lambda>c. closeTime c = t) ys"
  shows "fold (upsert tok tf) xs tbl = fold (upsert tok tf) ys tbl"
  using assms
proof (induction "length xs + length ys" arbitrary: xs ys tbl rule: less_induct)
  case less
  note key = less.prems(1) and sx = less.prems(2) and sy = less.prems(3) and H = less.prems(4)
  have covered_x: "fold (upsert tok tf) xs tbl = fold (upsert tok tf) ys tbl"
    if xs: "xs = x # xs'" and st: "stored tbl tok tf ot = Some s" and le: "closeTime x \<le> closeTime s"
    for x xs' s
  proof -
    have ox: "openTime x = ot" using key xs by simp
    have noop: "upsert tok tf x tbl = tbl"
      using st le ox by (intro upsert_noop [of _ _ _ _ s]) auto
    have "fold (upsert tok tf) xs' tbl = fold (upsert tok tf) ys tbl"
    proof (rule less.hyps)
      show "length xs' + length ys < length xs + length ys" using xs by simp
      show "\<forall>c\<in>set xs' \<union> set ys. openTime c = ot" using key xs by simp
      show "sorted_wrt (\<lambda>a b. closeTime a \<le> closeTime b) xs'" using sx xs by simp
      show "sorted_wrt (\<lambda>a b. closeTime a \<le> closeTime b) ys" by (rule sy)
      show "\<forall>t. (\<forall>s. stored tbl tok tf ot = Some s \<longrightarrow> closeTime s < t) \<longrightarrow>
           find (\<lambda>c. closeTime c = t) xs' = find (\<lambda>c. closeTime c = t) ys"
      proof (intro allI impI)
        fix t assume f: "\<forall>s. stored tbl tok tf ot = Some s \<longrightarrow> closeTime s < t"
        with st le have ne: "closeTime x \<noteq> t" by auto
        from H f have "find (\<lambda>c. closeTime c = t) xs = find (\<lambda>c. closeTime c = t) ys"
          by blast
        with ne xs show "find (\<lambda>c. closeTime c = t) xs' = find (\<lambda>c. closeTime c = t) ys"
          by simp
      qed
    qed
    with xs noop show ?thesis by simp
  qed
  have covered_y: "fold (upsert tok tf) xs tbl = fold (upsert tok tf) ys tbl"
    if ys: "ys = y # ys'" and st: "stored tbl tok tf ot = Some s" and le: "closeTime y \<le> closeTime s"
    for y ys' s
  proof -
    have oy: "openTime y = ot" using key ys by simp
    have noop: "upsert tok tf y tbl = tbl"
      using st le oy by (intro upsert_noop [of _ _ _ _ s]) auto
    have "fold (upsert tok tf) xs tbl = fold (upsert tok tf) ys' tbl"
    proof (rule less.hyps)
      show "length xs + length ys' < length xs + length ys" using ys by simp
      show "\<forall>c\<in>set xs \<union> set ys'. openTime c = ot" using key ys by simp
      show "sorted_wrt (\<lambda>a b. closeTime a \<le> closeTime b) xs" by (rule sx)
      show "sorted_wrt (\<lambda>a b. closeTime a \<le> closeTime b) ys'" using sy ys by simp
      show "\<forall>t. (\<forall>s. stored tbl tok tf ot = Some s \<longrightarrow> closeTime s < t) \<longrightarrow>
           find (\<lambda>c. closeTime c = t) xs = find (\<lambda>c. closeTime c = t) ys'"
      proof (intro allI impI)
        fix t assume f: "\<forall>s. stored tbl tok tf ot = Some s \<longrightarrow> closeTime s < t"
        with st le have ne: "closeTime y \<noteq> t" by auto
        from H f have "find (\<lambda>c. closeTime c = t) xs = find (\<lambda>c. closeTime c = t) ys"
          by blast
        with ne ys show "find (\<lambda>c. closeTime c = t) xs = find (\<lambda>c. closeTime c = t) ys'"
          by simp
      qed
    qed
    with ys noop show ?thesis by simp
  qed
  show ?case
  proof (cases xs)
    case xn: Nil
    show ?thesis
    proof (cases ys)
      case Nil
      with xn show ?thesis by simp
    next
      case yc: (Cons y ys')
      show ?thesis
      proof (cases "\<exists>s. stored tbl tok tf ot = Some s \<and> closeTime y \<le> closeTime s")
        case True
        then show ?thesis using covered_y [OF yc] by blast
      next
        case False
        then have "\<forall>s. stored tbl tok tf ot = Some s \<longrightarrow> closeTime s < closeTime y"
          by auto
        with H have "find (\<lambda>c. closeTime c = closeTime y) xs = find (\<lambda>c. closeTime c = closeTime y) ys"
          by blast
        with xn yc show ?thesis by simp
      qed
    qed
  next
    case xc: (Cons x xs')
    show ?thesis
    proof (cases "\<exists>s. stored tbl tok tf ot = Some s \<and> closeTime x \<le> closeTime s")
      case True
      then show ?thesis using covered_x [OF xc] by blast
    next
      case fx': False
      then have fx: "\<forall>s. stored tbl tok tf ot = Some s \<longrightarrow> closeTime s < closeTime x"
        by auto
      from H fx have "find (\<lambda>c. closeTime c = closeTime x) xs
          = find (\<lambda>c. closeTime c = closeTime x) ys"
        by blast
      with xc have hx: "find (\<lambda>c. closeTime c = closeTime x) ys = Some x"
        by simp
      show ?thesis
      proof (cases ys)
        case Nil
        with hx show ?thesis by simp
      next
        case yc: (Cons y ys')
        show ?thesis
        proof (cases "\<exists>s. stored tbl tok tf ot = Some s \<and> closeTime y \<le> closeTime s")
          case True
          then show ?thesis using covered_y [OF yc] by blast
        next
          case False
          then have fy: "\<forall>s. stored tbl tok tf ot = Some s \<longrightarrow> closeTime s < closeTime y"
            by auto
          from H fy have "find (\<lambda>c. closeTime c = closeTime y) xs
              = find (\<lambda>c. closeTime c = closeTime y) ys"
            by blast
          with yc have hy: "find (\<lambda>c. closeTime c = closeTime y) xs = Some y"
            by simp
          have "x \<in> set ys"
            using hx by (auto simp: find_Some_iff)
          then have yx: "closeTime y \<le> closeTime x"
            using sy yc by auto
          have "y \<in> set xs"
            using hy by (auto simp: find_Some_iff)
          then have xy: "closeTime x \<le> closeTime y"
            using sx xc by auto
          from xy yx have eq: "closeTime y = closeTime x" by simp
          with hx yc have same: "y = x" by simp
          have ox: "openTime x = ot" using key xc by simp
          obtain s' where s': "stored (upsert tok tf x tbl) tok tf ot = Some s'"
            and cs': "closeTime s' = closeTime x"
            using upsert_fresh_closeTime [of tbl tok tf x] fx ox by auto
          have "fold (upsert tok tf) xs' (upsert tok tf x tbl)
              = fold (upsert tok tf) ys' (upsert tok tf x tbl)"
          proof (rule less.hyps)
            show "length xs' + length ys' < length xs + length ys" using xc yc by simp
            show "\<forall>c\<in>set xs' \<union> set ys'. openTime c = ot" using key xc yc by simp
            show "sorted_wrt (\<lambda>a b. closeTime a \<le> closeTime b) xs'" using sx xc by simp
            show "sorted_wrt (\<lambda>a b. closeTime a \<le> closeTime b) ys'" using sy yc by simp
            show "\<forall>t. (\<forall>s. stored (upsert tok tf x tbl) tok tf ot = Some s \<longrightarrow> closeTime s < t) \<longrightarrow>
                find (\<lambda>c. closeTime c = t) xs' = find (\<lambda>c. closeTime c = t) ys'"
            proof (intro allI impI)
              fix t assume "\<forall>s. stored (upsert tok tf x tbl) tok tf ot = Some s \<longrightarrow> closeTime s < t"
              with s' cs' have lt: "closeTime x < t" by auto
              have "\<forall>s. stored tbl tok tf ot = Some s \<longrightarrow> closeTime s < t"
              proof (intro allI impI)
                fix s assume "stored tbl tok tf ot = Some s"
                with fx have "closeTime s < closeTime x" by blast
                with lt show "closeTime s < t" by simp
              qed
              with H have "find (\<lambda>c. closeTime c = t) xs = find (\<lambda>c. closeTime c = t) ys"
                by blast
              with lt xc yc same show "find (\<lambda>c. closeTime c = t) xs' = find (\<lambda>c. closeTime c = t) ys'"
                by simp
            qed
          qed
          with xc yc same show ?thesis by simp
        qed
      qed
    qed
  qed
qed

text \<open>
  C5, as amended. For every finite sequence of candles for the same key and every two
  orderings of it that are each sorted by ascending closeTime and in which, for every
  closeTime newer than the stored closeTime (every closeTime when the key has no stored
  row), the first candle with that closeTime is the same, applying the upserts in either
  ordering to the same table yields the same table, hence the same stored candle. For
  every table, an upsert whose closeTime is older than or equal to the stored closeTime
  leaves the stored candle and the table unchanged; and after the upsert of a candle, the
  upsert of a candle of the same key whose closeTime is not newer changes nothing: of
  candles with the same closeTime the first one written wins.
\<close>

theorem upsert_ascending_orderings_agree:
  "(mset xs = mset ys \<and> (\<forall>c\<in>set xs. openTime c = ot) \<and>
    sorted_wrt (\<lambda>a b. closeTime a \<le> closeTime b) xs \<and>
    sorted_wrt (\<lambda>a b. closeTime a \<le> closeTime b) ys \<and>
    (\<forall>t. (\<forall>s. stored tbl tok tf ot = Some s \<longrightarrow> closeTime s < t) \<longrightarrow>
         find (\<lambda>c. closeTime c = t) xs = find (\<lambda>c. closeTime c = t) ys) \<longrightarrow>
      fold (upsert tok tf) xs tbl = fold (upsert tok tf) ys tbl) \<and>
   (\<forall>s. stored tbl tok tf (openTime c) = Some s \<and> closeTime c \<le> closeTime s \<longrightarrow>
      stored (upsert tok tf c tbl) tok tf (openTime c) = Some s \<and> upsert tok tf c tbl = tbl) \<and>
   (openTime b = openTime a \<and> closeTime b \<le> closeTime a \<longrightarrow>
      upsert tok tf b (upsert tok tf a tbl) = upsert tok tf a tbl)"
proof (intro conjI allI impI)
  assume a: "mset xs = mset ys \<and> (\<forall>c\<in>set xs. openTime c = ot) \<and>
    sorted_wrt (\<lambda>a b. closeTime a \<le> closeTime b) xs \<and>
    sorted_wrt (\<lambda>a b. closeTime a \<le> closeTime b) ys \<and>
    (\<forall>t. (\<forall>s. stored tbl tok tf ot = Some s \<longrightarrow> closeTime s < t) \<longrightarrow>
         find (\<lambda>c. closeTime c = t) xs = find (\<lambda>c. closeTime c = t) ys)"
  then have "set xs = set ys"
    by (blast dest: mset_eq_setD)
  with a have "\<forall>c\<in>set xs \<union> set ys. openTime c = ot"
    by simp
  with a show "fold (upsert tok tf) xs tbl = fold (upsert tok tf) ys tbl"
    by (intro fold_upsert_leaders [where ot = ot]) blast+
next
  fix s
  assume a: "stored tbl tok tf (openTime c) = Some s \<and> closeTime c \<le> closeTime s"
  then show "upsert tok tf c tbl = tbl"
    by (intro upsert_noop [of _ _ _ _ s]) auto
  with a show "stored (upsert tok tf c tbl) tok tf (openTime c) = Some s"
    by simp
next
  assume "openTime b = openTime a \<and> closeTime b \<le> closeTime a"
  then show "upsert tok tf b (upsert tok tf a tbl) = upsert tok tf a tbl"
    by (intro upsert_first_wins) auto
qed

text \<open>
  C5 as stated fails when two different candles share a closeTime: both orderings of the
  pair are ascending, the first candle written is stored and the second is dropped by
  the \<open>WHERE\<close> condition, so the two orderings end with different stored candles.
\<close>

theorem upsert_tied_orderings_differ:
  "mset [ex_candle 0 10 95 100 90 99 1, ex_candle 0 10 95 200 90 99 1]
     = mset [ex_candle 0 10 95 200 90 99 1, ex_candle 0 10 95 100 90 99 1] \<and>
   sorted_wrt (\<lambda>a b. closeTime a \<le> closeTime b)
     [ex_candle 0 10 95 100 90 99 1, ex_candle 0 10 95 200 90 99 1] \<and>
   sorted_wrt (\<lambda>a b. closeTime a \<le> closeTime b)
     [ex_candle 0 10 95 200 90 99 1, ex_candle 0 10 95 100 90 99 1] \<and>
   stored (fold (upsert ''BTC'' ''1h'')
      [ex_candle 0 10 95 100 90 99 1, ex_candle 0 10 95 200 90 99 1] []) ''BTC'' ''1h'' 0
     = Some (ex_candle 0 10 95 100 90 99 1) \<and>
   stored (fold (upsert ''BTC'' ''1h'')
      [ex_candle 0 10 95 200 90 99 1, ex_candle 0 10 95 100 90 99 1] []) ''BTC'' ''1h'' 0
     = Some (ex_candle 0 10 95 200 90 99 1) \<and>
   ex_candle 0 10 95 100 90 99 1 \<noteq> ex_candle 0 10 95 200 90 99 1"
  by (simp add: ex_simps)

theorem upsert_ascending_orderings_agree_witness:
  "mset [ex_candle 0 10 91 300 70 92 1, ex_candle 0 10 93 400 60 94 2,
         ex_candle 0 20 96 90 80 85 3, ex_candle 0 20 97 500 50 86 4, ex_candle 0 20 98 600 40 87 5,
         ex_candle 0 30 99 150 85 140 6]
     = mset [ex_candle 0 10 93 400 60 94 2, ex_candle 0 10 91 300 70 92 1,
         ex_candle 0 20 96 90 80 85 3, ex_candle 0 20 98 600 40 87 5, ex_candle 0 20 97 500 50 86 4,
         ex_candle 0 30 99 150 85 140 6] \<and>
   [ex_candle 0 10 91 300 70 92 1, ex_candle 0 10 93 400 60 94 2,
         ex_candle 0 20 96 90 80 85 3, ex_candle 0 20 97 500 50 86 4, ex_candle 0 20 98 600 40 87 5,
         ex_candle 0 30 99 150 85 140 6]
     \<noteq> [ex_candle 0 10 93 400 60 94 2, ex_candle 0 10 91 300 70 92 1,
         ex_candle 0 20 96 90 80 85 3, ex_candle 0 20 98 600 40 87 5, ex_candle 0 20 97 500 50 86 4,
         ex_candle 0 30 99 150 85 140 6] \<and>
   stored [ex_row (ex_candle 0 10 95 100 90 99 1)] ''BTC'' ''1h'' 0
     = Some (ex_candle 0 10 95 100 90 99 1) \<and>
   fold (upsert ''BTC'' ''1h'')
       [ex_candle 0 10 91 300 70 92 1, ex_candle 0 10 93 400 60 94 2,
         ex_candle 0 20 96 90 80 85 3, ex_candle 0 20 97 500 50 86 4, ex_candle 0 20 98 600 40 87 5,
         ex_candle 0 30 99 150 85 140 6]
       [ex_row (ex_candle 0 10 95 100 90 99 1)]
     = [ex_row (ex_candle 0 30 95 150 80 140 6)] \<and>
   fold (upsert ''BTC'' ''1h'')
       [ex_candle 0 10 93 400 60 94 2, ex_candle 0 10 91 300 70 92 1,
         ex_candle 0 20 96 90 80 85 3, ex_candle 0 20 98 600 40 87 5, ex_candle 0 20 97 500 50 86 4,
         ex_candle 0 30 99 150 85 140 6]
       [ex_row (ex_candle 0 10 95 100 90 99 1)]
     = [ex_row (ex_candle 0 30 95 150 80 140 6)] \<and>
   upsert ''BTC'' ''1h'' (ex_candle 0 20 97 500 50 86 4)
       (upsert ''BTC'' ''1h'' (ex_candle 0 20 96 90 80 85 3) [ex_row (ex_candle 0 10 95 100 90 99 1)])
     = upsert ''BTC'' ''1h'' (ex_candle 0 20 96 90 80 85 3) [ex_row (ex_candle 0 10 95 100 90 99 1)] \<and>
   upsert ''BTC'' ''1h'' (ex_candle 0 10 91 300 70 92 1) [ex_row (ex_candle 0 10 95 100 90 99 1)]
     = [ex_row (ex_candle 0 10 95 100 90 99 1)]"
proof -
  let ?xs = "[ex_candle 0 10 91 300 70 92 1, ex_candle 0 10 93 400 60 94 2,
         ex_candle 0 20 96 90 80 85 3, ex_candle 0 20 97 500 50 86 4, ex_candle 0 20 98 600 40 87 5,
         ex_candle 0 30 99 150 85 140 6]"
  let ?ys = "[ex_candle 0 10 93 400 60 94 2, ex_candle 0 10 91 300 70 92 1,
         ex_candle 0 20 96 90 80 85 3, ex_candle 0 20 98 600 40 87 5, ex_candle 0 20 97 500 50 86 4,
         ex_candle 0 30 99 150 85 140 6]"
  let ?tbl = "[ex_row (ex_candle 0 10 95 100 90 99 1)]"
  note t = upsert_ascending_orderings_agree [where xs = ?xs and ys = ?ys and ot = 0
      and tok = "''BTC''" and tf = "''1h''" and tbl = ?tbl
      and c = "ex_candle 0 10 91 300 70 92 1"
      and a = "ex_candle 0 20 96 90 80 85 3" and b = "ex_candle 0 20 97 500 50 86 4"]
  have perm: "mset ?xs = mset ?ys"
    by (simp add: ex_candle_def)
  have diff: "?xs \<noteq> ?ys"
    by (simp add: ex_candle_def)
  have key: "\<forall>c\<in>set ?xs. openTime c = 0"
    by (simp add: ex_candle_def)
  have sx: "sorted_wrt (\<lambda>a b. closeTime a \<le> closeTime b) ?xs"
    by (simp add: ex_candle_def)
  have sy: "sorted_wrt (\<lambda>a b. closeTime a \<le> closeTime b) ?ys"
    by (simp add: ex_candle_def)
  have st: "stored ?tbl ''BTC'' ''1h'' 0 = Some (ex_candle 0 10 95 100 90 99 1)"
    by (simp add: ex_simps)
  have lead: "\<forall>t. (\<forall>s. stored ?tbl ''BTC'' ''1h'' 0 = Some s \<longrightarrow> closeTime s < t) \<longrightarrow>
         find (\<lambda>c. closeTime c = t) ?xs = find (\<lambda>c. closeTime c = t) ?ys"
    by (simp add: st) (simp add: ex_candle_def)
  have agree: "fold (upsert ''BTC'' ''1h'') ?xs ?tbl = fold (upsert ''BTC'' ''1h'') ?ys ?tbl"
    by (rule t [THEN conjunct1, rule_format]) (intro conjI perm key sx sy lead)
  have run: "fold (upsert ''BTC'' ''1h'') ?xs ?tbl = [ex_row (ex_candle 0 30 95 150 80 140 6)]"
    by (simp add: ex_candle_def ex_row_def conflicts_def do_update_def)
  have first: "upsert ''BTC'' ''1h'' (ex_candle 0 20 97 500 50 86 4)
       (upsert ''BTC'' ''1h'' (ex_candle 0 20 96 90 80 85 3) ?tbl)
     = upsert ''BTC'' ''1h'' (ex_candle 0 20 96 90 80 85 3) ?tbl"
    by (rule t [THEN conjunct2, THEN conjunct2, rule_format]) (simp add: ex_candle_def)
  have ot: "openTime (ex_candle 0 10 91 300 70 92 1) = 0"
    by (simp add: ex_candle_def)
  have le: "closeTime (ex_candle 0 10 91 300 70 92 1) \<le> closeTime (ex_candle 0 10 95 100 90 99 1)"
    by (simp add: ex_candle_def)
  have noop: "upsert ''BTC'' ''1h'' (ex_candle 0 10 91 300 70 92 1) ?tbl = ?tbl"
    using t [THEN conjunct2, THEN conjunct1, rule_format, of "ex_candle 0 10 95 100 90 99 1"] st le
    by (simp only: ot)
  have run_ys: "fold (upsert ''BTC'' ''1h'') ?ys ?tbl = [ex_row (ex_candle 0 30 95 150 80 140 6)]"
    by (simp only: agree [symmetric] run)
  show ?thesis
    by (intro conjI perm diff st run run_ys first noop)
qed

section \<open>Properties of gap detection\<close>

lemma intervalMs_pos: "0 < intervalMs tf"
  by (simp add: intervalMs_def)

lemma gaps_between_nth:
  "Suc i < length rows \<Longrightarrow> rows ! Suc i > rows ! i + d \<Longrightarrow>
   \<lparr>start = rows ! i + d, end_g = rows ! Suc i - d,
     missingIntervals = (rows ! Suc i - (rows ! i + d)) div d\<rparr> \<in> set (gaps_between d rows)"
proof (induction d rows arbitrary: i rule: gaps_between.induct)
  case (1 d prevTime currTime rest)
  show ?case
  proof (cases i)
    case 0
    with "1.prems" show ?thesis by (simp add: Let_def)
  next
    case (Suc j)
    with "1.prems" have "\<lparr>start = (currTime # rest) ! j + d, end_g = (currTime # rest) ! Suc j - d,
       missingIntervals = ((currTime # rest) ! Suc j - ((currTime # rest) ! j + d)) div d\<rparr>
         \<in> set (gaps_between d (currTime # rest))"
      by (intro "1.IH") auto
    with Suc show ?thesis by (simp add: Let_def)
  qed
qed simp_all

lemma floor_minus_one: "d \<noteq> 0 \<Longrightarrow> (c - (p + d)) div d = (c - p) div d - (1::int)"
proof -
  assume d: "d \<noteq> 0"
  have "(c - p) div d = ((c - (p + d)) + d) div d"
    by (simp add: algebra_simps)
  also have "\<dots> = (c - (p + d)) div d + 1"
    using d by (rule div_add_self2)
  finally show ?thesis by simp
qed

lemma gaps_between_start_lt:
  "sorted rows \<Longrightarrow> 0 < d \<Longrightarrow> g \<in> set (gaps_between d rows) \<Longrightarrow> start g < last rows"
proof (induction d rows rule: gaps_between.induct)
  case (1 d prevTime currTime rest)
  have le: "currTime \<le> last (currTime # rest)"
    using "1.prems"(1) by (cases rest) (auto simp: last_conv_nth)
  from "1.prems"(3) consider
    (here) "currTime > prevTime + d" "g = \<lparr>start = prevTime + d, end_g = currTime - d,
              missingIntervals = (currTime - (prevTime + d)) div d\<rparr>"
    | (later) "g \<in> set (gaps_between d (currTime # rest))"
    by (auto simp: Let_def split: if_splits)
  then show ?case
  proof cases
    case here
    with le show ?thesis by simp
  next
    case later
    with "1.IH" "1.prems" show ?thesis by simp
  qed
qed simp_all


lemma sorted_select_open_times: "sorted (select_open_times tbl tok tf)"
  by (simp add: select_open_times_def)

lemma findDataGaps_rows:
  "read_fault ev tok tf = None \<Longrightarrow> select_open_times tbl tok tf \<noteq> [] \<Longrightarrow>
   findDataGaps ev tbl tok tf =
     Inr (gaps_between (intervalMs tf) (select_open_times tbl tok tf)
          @ trailing_gap (intervalMs tf) (now ev) (last (select_open_times tbl tok tf)))"
  by (simp add: findDataGaps_def gaps_of_rows_def)

text \<open>
  C2, as amended. For every non-empty stored series and every consecutive pair of stored
  open times (prev, curr) with curr > prev + duration, \<open>findDataGaps\<close> emits a gap whose
  start is prev + duration, whose end is curr - duration, and whose count of missing
  intervals is floor((curr - prev - duration) / duration), which is
  floor((curr - prev) / duration) - 1.
\<close>

theorem findDataGaps_interior_gap:
  assumes "read_fault ev tok tf = None"
    and "rows = select_open_times tbl tok tf"
    and "Suc i < length rows"
    and "rows ! Suc i > rows ! i + intervalMs tf"
  shows "\<exists>gaps. findDataGaps ev tbl tok tf = Inr gaps \<and>
           \<lparr>start = rows ! i + intervalMs tf, end_g = rows ! Suc i - intervalMs tf,
             missingIntervals = (rows ! Suc i - rows ! i) div intervalMs tf - 1\<rparr> \<in> set gaps"
proof -
  have ne: "select_open_times tbl tok tf \<noteq> []"
    using assms(2,3) by auto
  have d: "intervalMs tf \<noteq> 0"
    using intervalMs_pos [of tf] by simp
  have "\<lparr>start = rows ! i + intervalMs tf, end_g = rows ! Suc i - intervalMs tf,
          missingIntervals = (rows ! Suc i - (rows ! i + intervalMs tf)) div intervalMs tf\<rparr>
        \<in> set (gaps_between (intervalMs tf) rows)"
    using assms(3,4) by (rule gaps_between_nth)
  then show ?thesis
    using assms(1,2) ne by (simp add: findDataGaps_rows floor_minus_one [OF d])
qed

lemmas ex_gap_simps = findDataGaps_def gaps_of_rows_def select_open_times_def trailing_gap_def
  intervalMs_def startTime_def ex_env_def ex_table_def ex_hour_def ex_candle_def

theorem findDataGaps_interior_gap_witness:
  "read_fault (ex_env (ex_hour 4)) ''BTC'' ''1h'' = None \<and>
   select_open_times (ex_table ''BTC'' ''1h'' [ex_hour 4, ex_hour 2]) ''BTC'' ''1h''
     = [ex_hour 2, ex_hour 4] \<and>
   ex_hour 4 > ex_hour 2 + intervalMs ''1h'' \<and>
   (\<exists>gaps. findDataGaps (ex_env (ex_hour 4)) (ex_table ''BTC'' ''1h'' [ex_hour 4, ex_hour 2])
              ''BTC'' ''1h'' = Inr gaps \<and>
      \<lparr>start = ex_hour 3, end_g = ex_hour 3, missingIntervals = 1\<rparr> \<in> set gaps)"
proof -
  have a: "read_fault (ex_env (ex_hour 4)) ''BTC'' ''1h'' = None"
    by (simp add: ex_env_def)
  have b: "[ex_hour 2, ex_hour 4]
      = select_open_times (ex_table ''BTC'' ''1h'' [ex_hour 4, ex_hour 2]) ''BTC'' ''1h''"
    by (simp add: select_open_times_def ex_table_def ex_hour_def ex_candle_def)
  have c: "Suc 0 < length [ex_hour 2, ex_hour 4]"
    by simp
  have d: "[ex_hour 2, ex_hour 4] ! Suc 0 > [ex_hour 2, ex_hour 4] ! 0 + intervalMs ''1h''"
    by (simp add: ex_hour_def intervalMs_def)
  have e: "ex_hour 2 + intervalMs ''1h'' = ex_hour 3" "ex_hour 4 - intervalMs ''1h'' = ex_hour 3"
    "(ex_hour 4 - ex_hour 2) div intervalMs ''1h'' - 1 = 1"
    by (simp_all add: ex_hour_def intervalMs_def)
  show ?thesis
    using a b [symmetric] d findDataGaps_interior_gap [OF a b c d] by (simp add: e)
qed

text \<open>
  C2 as stated gives the count floor((curr - prev) / duration). With hourly candles at
  02:00 and 04:00 that is 2, and the gap the code emits for the missing 03:00 has count 1.
\<close>

theorem findDataGaps_count_not_floor_of_distance:
  "findDataGaps (ex_env (ex_hour 4)) (ex_table ''BTC'' ''1h'' [ex_hour 4, ex_hour 2]) ''BTC'' ''1h''
     = Inr [\<lparr>start = ex_hour 3, end_g = ex_hour 3, missingIntervals = 1\<rparr>] \<and>
   (ex_hour 4 - ex_hour 2) div intervalMs ''1h'' = 2"
  by (simp add: ex_gap_simps)

text \<open>
  C4. For every non-empty stored series (a single point included) with last stored open
  time \<open>last rows\<close>: the result is the gaps between the points, followed by the trailing
  gap from last + duration to now exactly when now > last + 2 * duration; and a gap that
  starts at last + duration is in the result if and only if now > last + 2 * duration.
  The witness is the hourly series 00:00, 01:00, 02:00, 04:00, 05:00: at 06:00 the result
  is the gap [03:00, 03:00] with count 1 alone, at 07:01 the trailing gap from 06:00
  follows it; and a series of the single point 05:00 at 09:00.
\<close>

theorem findDataGaps_trailing_gap:
  assumes "read_fault ev tok tf = None"
    and "rows = select_open_times tbl tok tf"
    and "rows \<noteq> []"
  shows "findDataGaps ev tbl tok tf =
           Inr (gaps_between (intervalMs tf) rows @
                (if now ev > last rows + 2 * intervalMs tf
                 then [\<lparr>start = last rows + intervalMs tf, end_g = now ev,
                        missingIntervals = (now ev - (last rows + intervalMs tf)) div intervalMs tf\<rparr>]
                 else [])) \<and>
         ((\<exists>gaps g. findDataGaps ev tbl tok tf = Inr gaps \<and> g \<in> set gaps \<and>
              start g = last rows + intervalMs tf)
            \<longleftrightarrow> now ev > last rows + 2 * intervalMs tf)"
proof -
  have eq: "findDataGaps ev tbl tok tf =
           Inr (gaps_between (intervalMs tf) rows @
                (if now ev > last rows + 2 * intervalMs tf
                 then [\<lparr>start = last rows + intervalMs tf, end_g = now ev,
                        missingIntervals = (now ev - (last rows + intervalMs tf)) div intervalMs tf\<rparr>]
                 else []))"
    using assms by (simp add: findDataGaps_rows trailing_gap_def Let_def)
  have inner: "\<And>g. g \<in> set (gaps_between (intervalMs tf) rows)
      \<Longrightarrow> start g \<noteq> last rows + intervalMs tf"
  proof -
    fix g assume "g \<in> set (gaps_between (intervalMs tf) rows)"
    then have "start g < last rows"
      using assms(2) sorted_select_open_times intervalMs_pos
      by (intro gaps_between_start_lt) auto
    then show "start g \<noteq> last rows + intervalMs tf"
      using intervalMs_pos [of tf] by simp
  qed
  show ?thesis
    using eq inner by auto
qed

theorem findDataGaps_trailing_gap_witness:
  "read_fault (ex_env (ex_hour 6)) ''BTC'' ''1h'' = None \<and>
   select_open_times (ex_table ''BTC'' ''1h'' (map ex_hour [0, 1, 2, 4, 5])) ''BTC'' ''1h''
     = [ex_hour 0, ex_hour 1, ex_hour 2, ex_hour 4, ex_hour 5] \<and>
   findDataGaps (ex_env (ex_hour 6)) (ex_table ''BTC'' ''1h'' (map ex_hour [0, 1, 2, 4, 5]))
       ''BTC'' ''1h''
     = Inr [\<lparr>start = ex_hour 3, end_g = ex_hour 3, missingIntervals = 1\<rparr>] \<and>
   findDataGaps (ex_env (ex_hour 7 + 60000)) (ex_table ''BTC'' ''1h'' (map ex_hour [0, 1, 2, 4, 5]))
       ''BTC'' ''1h''
     = Inr [\<lparr>start = ex_hour 3, end_g = ex_hour 3, missingIntervals = 1\<rparr>,
            \<lparr>start = ex_hour 6, end_g = ex_hour 7 + 60000, missingIntervals = 1\<rparr>] \<and>
   findDataGaps (ex_env (ex_hour 9)) (ex_table ''BTC'' ''1h'' [ex_hour 5]) ''BTC'' ''1h''
     = Inr [\<lparr>start = ex_hour 6, end_g = ex_hour 9, missingIntervals = 3\<rparr>]"
proof -
  let ?tbl = "ex_table ''BTC'' ''1h'' (map ex_hour [0, 1, 2, 4, 5])"
  let ?rows = "[ex_hour 0, ex_hour 1, ex_hour 2, ex_hour 4, ex_hour 5]"
  have a: "\<And>t. read_fault (ex_env t) ''BTC'' ''1h'' = None"
    by (simp add: ex_env_def)
  have b: "?rows = select_open_times ?tbl ''BTC'' ''1h''"
    by (simp add: select_open_times_def ex_table_def ex_hour_def ex_candle_def)
  have b1: "[ex_hour 5] = select_open_times (ex_table ''BTC'' ''1h'' [ex_hour 5]) ''BTC'' ''1h''"
    by (simp add: select_open_times_def ex_table_def ex_hour_def ex_candle_def)
  have c: "?rows \<noteq> []" "[ex_hour 5] \<noteq> []"
    by simp_all
  have g: "gaps_between (intervalMs ''1h'') ?rows
      = [\<lparr>start = ex_hour 3, end_g = ex_hour 3, missingIntervals = 1\<rparr>]"
    by (simp add: intervalMs_def ex_hour_def)
  have n: "\<And>t. now (ex_env t) = t"
    by (simp add: ex_env_def)
  have t6: "findDataGaps (ex_env (ex_hour 6)) ?tbl ''BTC'' ''1h''
     = Inr [\<lparr>start = ex_hour 3, end_g = ex_hour 3, missingIntervals = 1\<rparr>]"
    using findDataGaps_trailing_gap [OF a b c(1), of "ex_hour 6"]
    by (simp add: g n) (simp add: ex_hour_def intervalMs_def)
  have t7: "findDataGaps (ex_env (ex_hour 7 + 60000)) ?tbl ''BTC'' ''1h''
     = Inr [\<lparr>start = ex_hour 3, end_g = ex_hour 3, missingIntervals = 1\<rparr>,
            \<lparr>start = ex_hour 6, end_g = ex_hour 7 + 60000, missingIntervals = 1\<rparr>]"
    using findDataGaps_trailing_gap [OF a b c(1), of "ex_hour 7 + 60000"]
    by (simp add: g n) (simp add: ex_hour_def intervalMs_def)
  have t9: "findDataGaps (ex_env (ex_hour 9)) (ex_table ''BTC'' ''1h'' [ex_hour 5]) ''BTC'' ''1h''
     = Inr [\<lparr>start = ex_hour 6, end_g = ex_hour 9, missingIntervals = 3\<rparr>]"
    using findDataGaps_trailing_gap [OF a b1 c(2), of "ex_hour 9"]
    by (simp add: n) (simp add: ex_hour_def intervalMs_def)
  show ?thesis
    using a b [symmetric] t6 t7 t9 by simp
qed

text \<open>
  C3, as amended. For every timeframe other than 5m and 1h, configured (1d) or not, the
  duration lookup does not fail: the duration is one day, the bootstrap window 90 days,
  and \<open>findDataGaps\<close> returns for the stored open times of the series the gaps it
  computes for 1d. The only failure of \<open>findDataGaps\<close> is a rejected query.
\<close>

theorem unconfigured_timeframe_is_daily:
  assumes "tf \<noteq> ''5m''" and "tf \<noteq> ''1h''"
  shows "intervalMs tf = 86400000 \<and>
         startTime t tf = t - 7776000000 \<and>
         gaps_of_rows t tf rows = gaps_of_rows t ''1d'' rows \<and>
         (read_fault ev tok tf = None \<longrightarrow>
            findDataGaps ev tbl tok tf
              = Inr (gaps_of_rows (now ev) ''1d'' (select_open_times tbl tok tf))) \<and>
         (\<forall>msg. read_fault ev tok tf = Some msg \<longrightarrow> findDataGaps ev tbl tok tf = Inl msg)"
  using assms by (simp add: intervalMs_def startTime_def gaps_of_rows_def findDataGaps_def)

theorem unconfigured_timeframe_is_daily_witness:
  "''15m'' \<noteq> ''5m'' \<and> ''15m'' \<noteq> ''1h'' \<and> intervalMs ''15m'' = 86400000 \<and>
   read_fault (ex_env 259200000) ''BTC'' ''15m'' = None \<and>
   findDataGaps (ex_env 259200000) (ex_table ''BTC'' ''15m'' [0]) ''BTC'' ''15m''
     = Inr (gaps_of_rows 259200000 ''1d'' [0])"
proof -
  have a: "''15m'' \<noteq> ''5m''" and b: "''15m'' \<noteq> ''1h''"
    by simp_all
  have r: "read_fault (ex_env 259200000) ''BTC'' ''15m'' = None"
    by (simp add: ex_env_def)
  have s: "select_open_times (ex_table ''BTC'' ''15m'' [0]) ''BTC'' ''15m'' = [0]"
    by (simp add: select_open_times_def ex_table_def ex_candle_def)
  have n: "now (ex_env 259200000) = 259200000"
    by (simp add: ex_env_def)
  show ?thesis
    using r unconfigured_timeframe_is_daily [OF a b, of 0 "[]" "ex_env 259200000" "''BTC''"
        "ex_table ''BTC'' ''15m'' [0]"]
    by (simp add: s n)
qed

text \<open>
  C3 as stated fails: for the timeframe 15m, which is not configured, \<open>findDataGaps\<close>
  returns a gap computed with the duration of one day.
\<close>

theorem unconfigured_timeframe_does_not_fail:
  "findDataGaps (ex_env 259200000) (ex_table ''BTC'' ''15m'' [0]) ''BTC'' ''15m''
     = Inr [\<lparr>start = 86400000, end_g = 259200000, missingIntervals = 2\<rparr>] \<and>
   intervalMs ''15m'' = 86400000"
  by (simp add: ex_gap_simps)

section \<open>Properties of stream ingestion\<close>

lemma filter_timeframe_upsert:
  "tf' \<noteq> tf \<Longrightarrow>
   filter (\<lambda>r. timeframe r = tf') (upsert tok tf c tbl) = filter (\<lambda>r. timeframe r = tf') tbl"
  by (induction tbl) (auto simp: conflicts_def)

lemma candle_of_kline_ignores_interval:
  "candle_of_kline (k\<lparr>k_i := iv\<rparr>) = candle_of_kline k"
  by (simp add: candle_of_kline_def)

text \<open>
  C7. For every kline frame whose symbol is that of a configured asset, the handler
  calls \<open>saveCandle\<close> with the parsed candle and the timeframe 5m; when the write is not
  rejected the table is the upsert of that candle under (token, 5m) and the key has a
  stored candle. The interval of the frame plays no part: the same frame with any other
  interval leaves the same table, and no row of another timeframe is added or changed.
  Yet the subscription lists the 5m, the 1h and the 1d stream of every configured asset,
  so candles of the hourly and daily streams are stored under the timeframe 5m.
\<close>

theorem stream_candle_saved_as_5m:
  assumes "msg_e m = ''kline''"
    and "msg_k m = Some k"
    and "find_token cfg (msg_s m) = Some tok"
    and "tok \<noteq> []"
  shows "on_message ev cfg (Some m) tbl =
           (case saveCandle ev tok ''5m'' (candle_of_kline k) tbl of
              Inl msg \<Rightarrow> tbl | Inr tbl' \<Rightarrow> tbl') \<and>
         (write_fault ev tok ''5m'' (candle_of_kline k) = None \<longrightarrow>
            on_message ev cfg (Some m) tbl = upsert tok ''5m'' (candle_of_kline k) tbl \<and>
            stored (on_message ev cfg (Some m) tbl) tok ''5m'' (k_t k) \<noteq> None) \<and>
         (\<forall>iv. on_message ev cfg (Some (m\<lparr>msg_k := Some (k\<lparr>k_i := iv\<rparr>)\<rparr>)) tbl
                = on_message ev cfg (Some m) tbl) \<and>
         (\<forall>tf. tf \<noteq> ''5m'' \<longrightarrow>
            filter (\<lambda>r. timeframe r = tf) (on_message ev cfg (Some m) tbl)
              = filter (\<lambda>r. timeframe r = tf) tbl) \<and>
         (\<forall>entry \<in> set cfg.
            snd entry @ ''@kline_5m'' \<in> set (allStreams cfg) \<and>
            snd entry @ ''@kline_1h'' \<in> set (allStreams cfg) \<and>
            snd entry @ ''@kline_1d'' \<in> set (allStreams cfg))"
proof -
  have eq: "on_message ev cfg (Some m) tbl =
           (case saveCandle ev tok ''5m'' (candle_of_kline k) tbl of
              Inl msg \<Rightarrow> tbl | Inr tbl' \<Rightarrow> tbl')"
    using assms by (simp add: on_message_def)
  have ok: "write_fault ev tok ''5m'' (candle_of_kline k) = None \<Longrightarrow>
      on_message ev cfg (Some m) tbl = upsert tok ''5m'' (candle_of_kline k) tbl"
    using eq by (simp add: saveCandle_def)
  have st: "write_fault ev tok ''5m'' (candle_of_kline k) = None \<Longrightarrow>
      stored (on_message ev cfg (Some m) tbl) tok ''5m'' (k_t k) \<noteq> None"
    using ok stored_upsert_same [of tok "''5m''" "candle_of_kline k" tbl]
    by (simp add: candle_of_kline_def)
  have iv: "\<And>iv. on_message ev cfg (Some (m\<lparr>msg_k := Some (k\<lparr>k_i := iv\<rparr>)\<rparr>)) tbl
                = on_message ev cfg (Some m) tbl"
    using assms by (simp add: on_message_def candle_of_kline_ignores_interval)
  have other: "\<And>tf. tf \<noteq> ''5m'' \<Longrightarrow>
            filter (\<lambda>r. timeframe r = tf) (on_message ev cfg (Some m) tbl)
              = filter (\<lambda>r. timeframe r = tf) tbl"
    using eq by (simp add: saveCandle_def filter_timeframe_upsert split: option.splits)
  have streams: "\<forall>entry \<in> set cfg.
            snd entry @ ''@kline_5m'' \<in> set (allStreams cfg) \<and>
            snd entry @ ''@kline_1h'' \<in> set (allStreams cfg) \<and>
            snd entry @ ''@kline_1d'' \<in> set (allStreams cfg)"
    by (auto simp: allStreams_def)
  show ?thesis
    using eq ok st iv other streams by blast
qed

lemma ex_find_token: "find_token MARKET_CONFIG ''BTCUSDT'' = Some ''BTC''"
  by code_simp


theorem stream_candle_saved_as_5m_witness:
  "msg_e (ex_message ''BTCUSDT'' ''1h'' (ex_hour 3)) = ''kline'' \<and>
   msg_k (ex_message ''BTCUSDT'' ''1h'' (ex_hour 3)) = Some (ex_kline ''1h'' (ex_hour 3)) \<and>
   find_token MARKET_CONFIG (msg_s (ex_message ''BTCUSDT'' ''1h'' (ex_hour 3))) = Some ''BTC'' \<and>
   write_fault (ex_env 0) ''BTC'' ''5m'' (candle_of_kline (ex_kline ''1h'' (ex_hour 3))) = None \<and>
   ''btcusdt@kline_1h'' \<in> set (allStreams MARKET_CONFIG) \<and>
   on_message (ex_env 0) MARKET_CONFIG (Some (ex_message ''BTCUSDT'' ''1h'' (ex_hour 3))) []
     = [\<lparr>token = ''BTC'', timeframe = ''5m'',
         candle = ex_candle (ex_hour 3) (ex_hour 3 + 3599999) 95 100 90 99 1\<rparr>]"
proof -
  let ?m = "ex_message ''BTCUSDT'' ''1h'' (ex_hour 3)"
  let ?k = "ex_kline ''1h'' (ex_hour 3)"
  have a: "msg_e ?m = ''kline''" and b: "msg_k ?m = Some ?k"
    by (simp_all add: ex_message_def)
  have c: "find_token MARKET_CONFIG (msg_s ?m) = Some ''BTC''"
    by (simp add: ex_message_def ex_find_token)
  have d: "''BTC'' \<noteq> []"
    by simp
  have w: "write_fault (ex_env 0) ''BTC'' ''5m'' (candle_of_kline ?k) = None"
    by (simp add: ex_env_def)
  have s: "''btcusdt@kline_1h'' \<in> set (allStreams MARKET_CONFIG)"
    by (simp add: allStreams_def MARKET_CONFIG_def)
  have u: "upsert ''BTC'' ''5m'' (candle_of_kline ?k) []
      = [\<lparr>token = ''BTC'', timeframe = ''5m'',
          candle = ex_candle (ex_hour 3) (ex_hour 3 + 3599999) 95 100 90 99 1\<rparr>]"
    by (simp add: candle_of_kline_def ex_kline_def ex_candle_def)
  have "on_message (ex_env 0) MARKET_CONFIG (Some ?m) [] = upsert ''BTC'' ''5m'' (candle_of_kline ?k) []"
    using w stream_candle_saved_as_5m [OF a b c d, of "ex_env 0" "[]"] by blast
  then show ?thesis
    using a b c w s by (simp only: u)
qed

section \<open>Properties of the backfill\<close>

lemma save_klines_ok:
  "\<forall>c\<in>set ks. write_fault ev tok tf c = None \<Longrightarrow>
   save_klines ev tok tf ks tbl = (None, fold (upsert tok tf) ks tbl)"
  by (induction ks arbitrary: tbl) (simp_all add: saveCandle_def)

lemma save_klines_fault:
  "\<forall>c\<in>set ks1. write_fault ev tok tf c = None \<Longrightarrow> write_fault ev tok tf k = Some msg \<Longrightarrow>
   save_klines ev tok tf (ks1 @ k # ks2) tbl = (Some msg, fold (upsert tok tf) ks1 tbl)"
  by (induction ks1 arbitrary: tbl) (simp_all add: saveCandle_def)

lemma fill_pages_fetch_fault:
  "currentStart < gap_end \<Longrightarrow>
   fetchKlines ev symbol tf (min maxCandles 1000) currentStart gap_end = Inl msg \<Longrightarrow>
   fill_pages (Suc n) ev symbol tok tf maxCandles currentStart gap_end tbl filled
     = Some (Some msg, tbl, filled)"
  by simp

lemma fill_pages_write_fault:
  "currentStart < gap_end \<Longrightarrow>
   fetchKlines ev symbol tf (min maxCandles 1000) currentStart gap_end = Inr (ks1 @ k # ks2) \<Longrightarrow>
   \<forall>c\<in>set ks1. write_fault ev tok tf c = None \<Longrightarrow> write_fault ev tok tf k = Some msg \<Longrightarrow>
   fill_pages (Suc n) ev symbol tok tf maxCandles currentStart gap_end tbl filled
     = Some (Some msg, fold (upsert tok tf) ks1 tbl, filled)"
  by (simp add: save_klines_fault)

lemma fill_gap_list_append:
  "fill_gap_list fuel ev symbol tok tf maxCandles (pre @ post) st =
     (case fill_gap_list fuel ev symbol tok tf maxCandles pre st of
        None \<Rightarrow> None
      | Some st1 \<Rightarrow> fill_gap_list fuel ev symbol tok tf maxCandles post st1)"
  by (induction pre arbitrary: st) (simp_all split: option.splits)

lemma fill_gap_errors:
  "fill_gap fuel ev symbol tok tf maxCandles g (tbl, filled, errs) = Some (tbl', filled', errs')
     \<Longrightarrow> \<exists>es. errs' = errs @ es"
  by (auto simp: fill_gap_def split: option.splits)

lemma fill_gap_list_errors:
  "fill_gap_list fuel ev symbol tok tf maxCandles gaps (tbl, filled, errs) = Some (tbl', filled', errs')
     \<Longrightarrow> \<exists>es. errs' = errs @ es"
proof (induction gaps arbitrary: tbl filled errs)
  case Nil
  then show ?case by simp
next
  case (Cons g gaps)
  then obtain tbl1 filled1 errs1 where
    g: "fill_gap fuel ev symbol tok tf maxCandles g (tbl, filled, errs) = Some (tbl1, filled1, errs1)"
    and rest: "fill_gap_list fuel ev symbol tok tf maxCandles gaps (tbl1, filled1, errs1)
      = Some (tbl', filled', errs')"
    by (auto split: option.splits)
  from fill_gap_errors [OF g] Cons.IH [OF rest] show ?case by auto
qed

lemma fill_pages_returns:
  "pages_advance ev symbol tf (min maxCandles 1000) \<Longrightarrow> nat (gap_end - currentStart) < fuel \<Longrightarrow>
   fill_pages fuel ev symbol tok tf maxCandles currentStart gap_end tbl filled \<noteq> None"
proof (induction fuel arbitrary: currentStart tbl filled)
  case 0
  then show ?case by simp
next
  case (Suc n)
  show ?case
  proof (cases "currentStart < gap_end")
    case False
    then show ?thesis by simp
  next
    case lt: True
    show ?thesis
    proof (cases "fetchKlines ev symbol tf (min maxCandles 1000) currentStart gap_end")
      case (Inl msg)
      with lt show ?thesis by simp
    next
      case (Inr klines)
      show ?thesis
      proof (cases "klines = []")
        case True
        with lt Inr show ?thesis by simp
      next
        case ne: False
        obtain e tbl' where sv: "save_klines ev tok tf klines tbl = (e, tbl')"
          by (cases "save_klines ev tok tf klines tbl")
        show ?thesis
        proof (cases e)
          case (Some msg)
          with lt Inr ne sv show ?thesis by simp
        next
          case None
          have "currentStart \<le> closeTime (last klines)"
            using Suc.prems(1) Inr ne by (auto simp: pages_advance_def)
          with Suc.prems(2) lt have "nat (gap_end - (closeTime (last klines) + 1)) < n"
            by simp
          with Suc.IH [OF Suc.prems(1)]
          have "fill_pages n ev symbol tok tf maxCandles (closeTime (last klines) + 1)
              gap_end tbl' (filled + length klines) \<noteq> None"
            by blast
          with lt Inr ne sv None show ?thesis by simp
        qed
      qed
    qed
  qed
qed

lemma fill_gap_returns:
  "pages_advance ev symbol tf (min maxCandles 1000) \<Longrightarrow> nat (end_g g - start g) < fuel \<Longrightarrow>
   fill_gap fuel ev symbol tok tf maxCandles g st \<noteq> None"
  using fill_pages_returns [of ev symbol tf maxCandles "end_g g" "start g" fuel tok "fst st" "fst (snd st)"]
  by (auto simp: fill_gap_def split: prod.splits option.splits)

lemma fill_gap_list_returns:
  "pages_advance ev symbol tf (min maxCandles 1000) \<Longrightarrow>
   \<forall>g\<in>set gaps. nat (end_g g - start g) < fuel \<Longrightarrow>
   fill_gap_list fuel ev symbol tok tf maxCandles gaps st \<noteq> None"
proof (induction gaps arbitrary: st)
  case Nil
  then show ?case by simp
next
  case (Cons g gaps)
  have "fill_gap fuel ev symbol tok tf maxCandles g st \<noteq> None"
    using Cons.prems by (intro fill_gap_returns) auto
  then obtain st' where "fill_gap fuel ev symbol tok tf maxCandles g st = Some st'"
    by blast
  with Cons show ?case by simp
qed

lemma fillGaps_returns:
  assumes "symbol_of cfg tok = Some symbol"
    and "read_fault ev tok tf = None"
    and "pages_advance ev symbol tf (min maxCandles 1000)"
    and "\<forall>g\<in>set (gaps_of_rows (now ev) tf (select_open_times tbl tok tf)).
           nat (end_g g - start g) < fuel"
  shows "\<exists>r tbl'. fillGaps fuel ev cfg tok tf maxCandles tbl = Some (Inr r, tbl')"
proof -
  let ?gaps = "gaps_of_rows (now ev) tf (select_open_times tbl tok tf)"
  have "fill_gap_list fuel ev symbol tok tf maxCandles ?gaps (tbl, 0, []) \<noteq> None"
    using assms(3,4) by (rule fill_gap_list_returns)
  then obtain tbl' filled errs where
    "fill_gap_list fuel ev symbol tok tf maxCandles ?gaps (tbl, 0, []) = Some (tbl', filled, errs)"
    by (cases "fill_gap_list fuel ev symbol tok tf maxCandles ?gaps (tbl, 0, [])") auto
  then show ?thesis
    using assms(1,2) by (simp add: fillGaps_def findDataGaps_def)
qed

lemma fillGaps_throws_only_read_fault:
  "fillGaps fuel ev cfg tok tf maxCandles tbl = Some (Inl msg, tbl') \<Longrightarrow>
   read_fault ev tok tf = Some msg \<and> tbl' = tbl"
  by (auto simp: fillGaps_def findDataGaps_def split: option.splits sum.splits if_splits)


lemma save_klines_upserts:
  "save_klines ev tok tf ks tbl = (e, tbl') \<Longrightarrow> \<exists>cs. tbl' = fold (upsert tok tf) cs tbl"
proof (induction ks arbitrary: tbl)
  case Nil
  then have "tbl' = fold (upsert tok tf) [] tbl" by simp
  then show ?case by blast
next
  case (Cons k ks)
  show ?case
  proof (cases "write_fault ev tok tf k")
    case (Some msg)
    with Cons.prems have "tbl' = fold (upsert tok tf) [] tbl"
      by (simp add: saveCandle_def)
    then show ?thesis by blast
  next
    case None
    with Cons.prems have "save_klines ev tok tf ks (upsert tok tf k tbl) = (e, tbl')"
      by (simp add: saveCandle_def)
    from Cons.IH [OF this] obtain cs where "tbl' = fold (upsert tok tf) cs (upsert tok tf k tbl)"
      by blast
    then have "tbl' = fold (upsert tok tf) (k # cs) tbl" by simp
    then show ?thesis by blast
  qed
qed

lemma fill_pages_upserts:
  "fill_pages fuel ev symbol tok tf maxCandles currentStart gap_end tbl filled = Some (e, tbl', filled')
     \<Longrightarrow> \<exists>cs. tbl' = fold (upsert tok tf) cs tbl"
proof (induction fuel arbitrary: currentStart tbl filled)
  case 0
  then show ?case by simp
next
  case (Suc n)
  have base: "tbl' = tbl \<Longrightarrow> ?case"
  proof -
    assume "tbl' = tbl"
    then have "tbl' = fold (upsert tok tf) [] tbl" by simp
    then show ?case by blast
  qed
  show ?case
  proof (cases "currentStart < gap_end")
    case False
    with Suc.prems base show ?thesis by simp
  next
    case lt: True
    show ?thesis
    proof (cases "fetchKlines ev symbol tf (min maxCandles 1000) currentStart gap_end")
      case (Inl msg)
      with lt Suc.prems base show ?thesis by simp
    next
      case (Inr klines)
      show ?thesis
      proof (cases "klines = []")
        case True
        with lt Inr Suc.prems base show ?thesis by simp
      next
        case ne: False
        obtain e1 tbl1 where sv: "save_klines ev tok tf klines tbl = (e1, tbl1)"
          by (cases "save_klines ev tok tf klines tbl")
        from save_klines_upserts [OF sv] obtain cs1 where cs1: "tbl1 = fold (upsert tok tf) cs1 tbl"
          by blast
        show ?thesis
        proof (cases e1)
          case (Some msg)
          with lt Inr ne sv Suc.prems have "tbl' = tbl1" by simp
          with cs1 show ?thesis by blast
        next
          case None
          with lt Inr ne sv Suc.prems
          have "fill_pages n ev symbol tok tf maxCandles (closeTime (last klines) + 1) gap_end
                  tbl1 (filled + length klines) = Some (e, tbl', filled')"
            by simp
          from Suc.IH [OF this] obtain cs2 where "tbl' = fold (upsert tok tf) cs2 tbl1"
            by blast
          with cs1 have "tbl' = fold (upsert tok tf) (cs1 @ cs2) tbl" by simp
          then show ?thesis by blast
        qed
      qed
    qed
  qed
qed

lemma fill_gap_caught:
  "fill_pages fuel ev symbol tok tf maxCandles (start g) (end_g g) tbl filled
     = Some (Some msg, tbl', filled') \<Longrightarrow>
   fill_gap fuel ev symbol tok tf maxCandles g (tbl, filled, errs) = Some (tbl', filled', errs @ [msg])"
  by (simp add: fill_gap_def)

lemma fill_gap_list_snoc_failure:
  "fill_gap_list fuel ev symbol tok tf maxCandles pre st = Some (tbl1, filled1, errs1) \<Longrightarrow>
   fill_pages fuel ev symbol tok tf maxCandles (start g) (end_g g) tbl1 filled1
     = Some (Some msg, tbl2, filled2) \<Longrightarrow>
   fill_gap_list fuel ev symbol tok tf maxCandles (pre @ g # post) st
     = fill_gap_list fuel ev symbol tok tf maxCandles post (tbl2, filled2, errs1 @ [msg])"
  by (simp add: fill_gap_list_append fill_gap_caught)

text \<open>
  \<open>fillGaps\<close> after an exception in the paging loop of one of its gaps: the result is
  what the loop over the remaining gaps makes of the table, the counter and the error
  list with the message appended; with an upstream that advances it is returned.
\<close>

lemma fillGaps_after_failure:
  assumes "symbol_of cfg tok = Some symbol"
    and "read_fault ev tok tf = None"
    and "gaps_of_rows (now ev) tf (select_open_times tbl tok tf) = pre @ g # post"
    and "fill_gap_list fuel ev symbol tok tf maxCandles pre (tbl, 0, []) = Some (tblp, filledp, errsp)"
    and "fill_pages fuel ev symbol tok tf maxCandles (start g) (end_g g) tblp filledp
           = Some (Some msg, tblg, filledg)"
  shows "fillGaps fuel ev cfg tok tf maxCandles tbl =
           (case fill_gap_list fuel ev symbol tok tf maxCandles post (tblg, filledg, errsp @ [msg]) of
              None \<Rightarrow> None
            | Some (tbl', filled, errs) \<Rightarrow>
                Some (Inr \<lparr>candlesFilled = filled, errors = errs\<rparr>, tbl'))"
proof -
  have "fill_gap_list fuel ev symbol tok tf maxCandles (pre @ g # post) (tbl, 0, [])
      = fill_gap_list fuel ev symbol tok tf maxCandles post (tblg, filledg, errsp @ [msg])"
    using assms(4,5) by (rule fill_gap_list_snoc_failure)
  then show ?thesis
    using assms(1,2,3) by (simp add: fillGaps_def findDataGaps_def)
qed

lemma fillGaps_after_failure_returns:
  assumes "symbol_of cfg tok = Some symbol"
    and "read_fault ev tok tf = None"
    and "gaps_of_rows (now ev) tf (select_open_times tbl tok tf) = pre @ g # post"
    and "fill_gap_list fuel ev symbol tok tf maxCandles pre (tbl, 0, []) = Some (tblp, filledp, errsp)"
    and "fill_pages fuel ev symbol tok tf maxCandles (start g) (end_g g) tblp filledp
           = Some (Some msg, tblg, filledg)"
    and "pages_advance ev symbol tf (min maxCandles 1000)"
    and "\<forall>h\<in>set post. nat (end_g h - start h) < fuel"
  shows "\<exists>tbl' filled es. fillGaps fuel ev cfg tok tf maxCandles tbl
           = Some (Inr \<lparr>candlesFilled = filled, errors = errsp @ msg # es\<rparr>, tbl')"
proof -
  have "fill_gap_list fuel ev symbol tok tf maxCandles post (tblg, filledg, errsp @ [msg]) \<noteq> None"
    using assms(6,7) by (rule fill_gap_list_returns)
  then obtain tbl' filled errs where
    r: "fill_gap_list fuel ev symbol tok tf maxCandles post (tblg, filledg, errsp @ [msg])
          = Some (tbl', filled, errs)"
    by (cases "fill_gap_list fuel ev symbol tok tf maxCandles post (tblg, filledg, errsp @ [msg])") auto
  from fill_gap_list_errors [OF r] obtain es where "errs = (errsp @ [msg]) @ es"
    by blast
  then have "errs = errsp @ msg # es" by simp
  with r fillGaps_after_failure [OF assms(1-5)] show ?thesis
    by simp
qed

text \<open>
  C9. A rejected request of \<open>fetchKlines\<close> (a network, status or parse failure) at any
  page of a gap ends the paging loop of that gap with its message, the table and the
  counter as they are; the round of the gap appends the message to \<open>errors\<close>, and the
  loop over the gaps goes on with the gaps after it from that table, counter and error
  list: so for a failure at the first page, and for a failure at a later page, where the
  table differs from the one before the gap by upserts only. Entries of \<open>errors\<close> are
  never dropped. For \<open>fillGaps\<close> itself, with a known token and a store read that
  succeeds: when the request of a gap \<open>g\<close> of the detected gaps \<open>pre @ g # post\<close> is
  rejected, the call is the loop over \<open>post\<close>, started from the table and counter left by
  \<open>pre\<close> and from the errors of \<open>pre\<close> followed by the message, and its outcome is
  returned as \<open>{candlesFilled, errors}\<close>; with an upstream that advances and fuel above
  the length of every gap of \<open>post\<close> it does return, and the returned \<open>errors\<close> are
  those of \<open>pre\<close>, the message, and what the gaps of \<open>post\<close> add. Whatever the upstream
  does, the only exception that leaves \<open>fillGaps\<close> is the rejected store read of
  \<open>findDataGaps\<close>.
\<close>

theorem fillGaps_isolates_fetch_failure:
  "(\<forall>n currentStart tbl filled.
      currentStart < end_g g \<and>
      fetchKlines ev symbol tf (min maxCandles 1000) currentStart (end_g g) = Inl msg \<longrightarrow>
        fill_pages (Suc n) ev symbol tok tf maxCandles currentStart (end_g g) tbl filled
          = Some (Some msg, tbl, filled)) \<and>
   (\<forall>tblp filledp errsp.
      fill_gap_list (Suc n) ev symbol tok tf maxCandles pre st = Some (tblp, filledp, errsp) \<and>
      start g < end_g g \<and>
      fetchKlines ev symbol tf (min maxCandles 1000) (start g) (end_g g) = Inl msg \<longrightarrow>
        fill_gap_list (Suc n) ev symbol tok tf maxCandles (pre @ g # post) st
          = fill_gap_list (Suc n) ev symbol tok tf maxCandles post (tblp, filledp, errsp @ [msg])) \<and>
   (\<forall>tblp filledp errsp tblg filledg.
      fill_gap_list fuel ev symbol tok tf maxCandles pre st = Some (tblp, filledp, errsp) \<and>
      fill_pages fuel ev symbol tok tf maxCandles (start g) (end_g g) tblp filledp
        = Some (Some msg, tblg, filledg) \<longrightarrow>
        fill_gap_list fuel ev symbol tok tf maxCandles (pre @ g # post) st
          = fill_gap_list fuel ev symbol tok tf maxCandles post (tblg, filledg, errsp @ [msg]) \<and>
        (\<exists>cs. tblg = fold (upsert tok tf) cs tblp)) \<and>
   (\<forall>gaps tbl filled errs tbl' filled' errs'.
      fill_gap_list fuel ev symbol tok tf maxCandles gaps (tbl, filled, errs)
        = Some (tbl', filled', errs') \<longrightarrow> (\<exists>es. errs' = errs @ es)) \<and>
   (\<forall>cfg tbl.
      symbol_of cfg tok = Some symbol \<and> read_fault ev tok tf = None \<and>
      pages_advance ev symbol tf (min maxCandles 1000) \<and>
      (\<forall>g\<in>set (gaps_of_rows (now ev) tf (select_open_times tbl tok tf)).
         nat (end_g g - start g) < fuel) \<longrightarrow>
        (\<exists>r tbl'. fillGaps fuel ev cfg tok tf maxCandles tbl = Some (Inr r, tbl'))) \<and>
   (\<forall>cfg tbl e tbl'.
      fillGaps fuel ev cfg tok tf maxCandles tbl = Some (Inl e, tbl') \<longrightarrow>
        read_fault ev tok tf = Some e) \<and>
   (\<forall>cfg tbl tblp filledp errsp.
      symbol_of cfg tok = Some symbol \<and> read_fault ev tok tf = None \<and>
      gaps_of_rows (now ev) tf (select_open_times tbl tok tf) = pre @ g # post \<and>
      fill_gap_list (Suc n) ev symbol tok tf maxCandles pre (tbl, 0, []) = Some (tblp, filledp, errsp) \<and>
      start g < end_g g \<and>
      fetchKlines ev symbol tf (min maxCandles 1000) (start g) (end_g g) = Inl msg \<longrightarrow>
        fillGaps (Suc n) ev cfg tok tf maxCandles tbl =
          (case fill_gap_list (Suc n) ev symbol tok tf maxCandles post (tblp, filledp, errsp @ [msg]) of
             None \<Rightarrow> None
           | Some (tbl', filled, errs) \<Rightarrow>
               Some (Inr \<lparr>candlesFilled = filled, errors = errs\<rparr>, tbl')) \<and>
        (pages_advance ev symbol tf (min maxCandles 1000) \<and>
         (\<forall>h\<in>set post. nat (end_g h - start h) < Suc n) \<longrightarrow>
           (\<exists>tbl' filled es. fillGaps (Suc n) ev cfg tok tf maxCandles tbl
              = Some (Inr \<lparr>candlesFilled = filled, errors = errsp @ msg # es\<rparr>, tbl')))) \<and>
   (\<forall>cfg tbl tblp filledp errsp tblg filledg.
      symbol_of cfg tok = Some symbol \<and> read_fault ev tok tf = None \<and>
      gaps_of_rows (now ev) tf (select_open_times tbl tok tf) = pre @ g # post \<and>
      fill_gap_list fuel ev symbol tok tf maxCandles pre (tbl, 0, []) = Some (tblp, filledp, errsp) \<and>
      fill_pages fuel ev symbol tok tf maxCandles (start g) (end_g g) tblp filledp
        = Some (Some msg, tblg, filledg) \<longrightarrow>
        fillGaps fuel ev cfg tok tf maxCandles tbl =
          (case fill_gap_list fuel ev symbol tok tf maxCandles post (tblg, filledg, errsp @ [msg]) of
             None \<Rightarrow> None
           | Some (tbl', filled, errs) \<Rightarrow>
               Some (Inr \<lparr>candlesFilled = filled, errors = errs\<rparr>, tbl')) \<and>
        (pages_advance ev symbol tf (min maxCandles 1000) \<and>
         (\<forall>h\<in>set post. nat (end_g h - start h) < fuel) \<longrightarrow>
           (\<exists>tbl' filled es. fillGaps fuel ev cfg tok tf maxCandles tbl
              = Some (Inr \<lparr>candlesFilled = filled, errors = errsp @ msg # es\<rparr>, tbl'))))"
proof (intro conjI allI impI)
  fix n currentStart tbl filled
  assume "currentStart < end_g g \<and>
      fetchKlines ev symbol tf (min maxCandles 1000) currentStart (end_g g) = Inl msg"
  then show "fill_pages (Suc n) ev symbol tok tf maxCandles currentStart (end_g g) tbl filled
          = Some (Some msg, tbl, filled)"
    by (simp add: fill_pages_fetch_fault)
next
  fix tblp filledp errsp
  assume a: "fill_gap_list (Suc n) ev symbol tok tf maxCandles pre st = Some (tblp, filledp, errsp) \<and>
      start g < end_g g \<and>
      fetchKlines ev symbol tf (min maxCandles 1000) (start g) (end_g g) = Inl msg"
  then have "fill_pages (Suc n) ev symbol tok tf maxCandles (start g) (end_g g) tblp filledp
      = Some (Some msg, tblp, filledp)"
    by (simp add: fill_pages_fetch_fault)
  with a show "fill_gap_list (Suc n) ev symbol tok tf maxCandles (pre @ g # post) st
          = fill_gap_list (Suc n) ev symbol tok tf maxCandles post (tblp, filledp, errsp @ [msg])"
    by (intro fill_gap_list_snoc_failure) auto
next
  fix tblp filledp errsp tblg filledg
  assume a: "fill_gap_list fuel ev symbol tok tf maxCandles pre st = Some (tblp, filledp, errsp) \<and>
      fill_pages fuel ev symbol tok tf maxCandles (start g) (end_g g) tblp filledp
        = Some (Some msg, tblg, filledg)"
  then show "fill_gap_list fuel ev symbol tok tf maxCandles (pre @ g # post) st
          = fill_gap_list fuel ev symbol tok tf maxCandles post (tblg, filledg, errsp @ [msg])"
    by (intro fill_gap_list_snoc_failure) auto
  from a show "\<exists>cs. tblg = fold (upsert tok tf) cs tblp"
    by (blast dest: fill_pages_upserts)
next
  fix gaps tbl filled errs tbl' filled' errs'
  assume "fill_gap_list fuel ev symbol tok tf maxCandles gaps (tbl, filled, errs)
        = Some (tbl', filled', errs')"
  then show "\<exists>es. errs' = errs @ es"
    by (rule fill_gap_list_errors)
next
  fix cfg tbl
  assume "symbol_of cfg tok = Some symbol \<and> read_fault ev tok tf = None \<and>
      pages_advance ev symbol tf (min maxCandles 1000) \<and>
      (\<forall>g\<in>set (gaps_of_rows (now ev) tf (select_open_times tbl tok tf)).
         nat (end_g g - start g) < fuel)"
  then show "\<exists>r tbl'. fillGaps fuel ev cfg tok tf maxCandles tbl = Some (Inr r, tbl')"
    by (intro fillGaps_returns) auto
next
  fix cfg tbl e tbl'
  assume "fillGaps fuel ev cfg tok tf maxCandles tbl = Some (Inl e, tbl')"
  then show "read_fault ev tok tf = Some e"
    by (simp add: fillGaps_throws_only_read_fault)
next
  fix cfg tbl tblp filledp errsp
  assume a: "symbol_of cfg tok = Some symbol \<and> read_fault ev tok tf = None \<and>
      gaps_of_rows (now ev) tf (select_open_times tbl tok tf) = pre @ g # post \<and>
      fill_gap_list (Suc n) ev symbol tok tf maxCandles pre (tbl, 0, []) = Some (tblp, filledp, errsp) \<and>
      start g < end_g g \<and>
      fetchKlines ev symbol tf (min maxCandles 1000) (start g) (end_g g) = Inl msg"
  then have p: "fill_pages (Suc n) ev symbol tok tf maxCandles (start g) (end_g g) tblp filledp
      = Some (Some msg, tblp, filledp)"
    by (simp add: fill_pages_fetch_fault)
  from a p show "fillGaps (Suc n) ev cfg tok tf maxCandles tbl =
          (case fill_gap_list (Suc n) ev symbol tok tf maxCandles post (tblp, filledp, errsp @ [msg]) of
             None \<Rightarrow> None
           | Some (tbl', filled, errs) \<Rightarrow>
               Some (Inr \<lparr>candlesFilled = filled, errors = errs\<rparr>, tbl'))"
    by (intro fillGaps_after_failure) auto
  assume "pages_advance ev symbol tf (min maxCandles 1000) \<and>
         (\<forall>h\<in>set post. nat (end_g h - start h) < Suc n)"
  with a p show "\<exists>tbl' filled es. fillGaps (Suc n) ev cfg tok tf maxCandles tbl
              = Some (Inr \<lparr>candlesFilled = filled, errors = errsp @ msg # es\<rparr>, tbl')"
    by (intro fillGaps_after_failure_returns [where g = g and pre = pre and post = post
          and tblp = tblp and filledp = filledp and tblg = tblp and filledg = filledp
          and symbol = symbol]) auto
next
  fix cfg tbl tblp filledp errsp tblg filledg
  assume a: "symbol_of cfg tok = Some symbol \<and> read_fault ev tok tf = None \<and>
      gaps_of_rows (now ev) tf (select_open_times tbl tok tf) = pre @ g # post \<and>
      fill_gap_list fuel ev symbol tok tf maxCandles pre (tbl, 0, []) = Some (tblp, filledp, errsp) \<and>
      fill_pages fuel ev symbol tok tf maxCandles (start g) (end_g g) tblp filledp
        = Some (Some msg, tblg, filledg)"
  then show "fillGaps fuel ev cfg tok tf maxCandles tbl =
          (case fill_gap_list fuel ev symbol tok tf maxCandles post (tblg, filledg, errsp @ [msg]) of
             None \<Rightarrow> None
           | Some (tbl', filled, errs) \<Rightarrow>
               Some (Inr \<lparr>candlesFilled = filled, errors = errs\<rparr>, tbl'))"
    by (intro fillGaps_after_failure) auto
  assume "pages_advance ev symbol tf (min maxCandles 1000) \<and>
         (\<forall>h\<in>set post. nat (end_g h - start h) < fuel)"
  with a show "\<exists>tbl' filled es. fillGaps fuel ev cfg tok tf maxCandles tbl
              = Some (Inr \<lparr>candlesFilled = filled, errors = errsp @ msg # es\<rparr>, tbl')"
    by (intro fillGaps_after_failure_returns [where g = g and pre = pre and post = post
          and tblp = tblp and filledp = filledp and tblg = tblg and filledg = filledg
          and symbol = symbol]) auto
qed

text \<open>
  C8, as amended. \<open>saveCandle\<close> throws a rejected write to its caller. In \<open>fillGaps\<close>
  the caller is the paging loop inside the \<open>try\<close> block of the gap: the rejected write
  ends the loop with its message, the candles of the page written before it stay, the
  counter is not advanced, and the round of the gap appends the message to \<open>errors\<close>.
  For \<open>fillGaps\<close> itself, with a known token and a store read that succeeds: when a
  write is rejected in a gap \<open>g\<close> of the detected gaps \<open>pre @ g # post\<close>, the call is the
  loop over \<open>post\<close>, started from the table with the candles written before the
  failure, and from the errors of \<open>pre\<close> followed by the message, and its outcome is
  returned as \<open>{candlesFilled, errors}\<close>; with an upstream that advances and fuel above
  the length of every gap of \<open>post\<close> it does return, and the returned \<open>errors\<close> hold
  the message. The write failure never leaves \<open>fillGaps\<close>: the only exception that does
  is the rejected store read of \<open>findDataGaps\<close>, and then the table is untouched.
\<close>

theorem fillGaps_catches_write_failure:
  "(write_fault ev tok tf c = Some msg \<longrightarrow> saveCandle ev tok tf c tbla = Inl msg) \<and>
   (\<forall>n currentStart tbl filled written k rest.
      currentStart < end_g g \<and>
      fetchKlines ev symbol tf (min maxCandles 1000) currentStart (end_g g) = Inr (written @ k # rest) \<and>
      (\<forall>c\<in>set written. write_fault ev tok tf c = None) \<and> write_fault ev tok tf k = Some msg \<longrightarrow>
        fill_pages (Suc n) ev symbol tok tf maxCandles currentStart (end_g g) tbl filled
          = Some (Some msg, fold (upsert tok tf) written tbl, filled)) \<and>
   (\<forall>fuel tbl filled errs tbl' filled'.
      fill_pages fuel ev symbol tok tf maxCandles (start g) (end_g g) tbl filled
        = Some (Some msg, tbl', filled') \<longrightarrow>
        fill_gap fuel ev symbol tok tf maxCandles g (tbl, filled, errs)
          = Some (tbl', filled', errs @ [msg])) \<and>
   (\<forall>fuel cfg tbl e tbl'.
      fillGaps fuel ev cfg tok tf maxCandles tbl = Some (Inl e, tbl') \<longrightarrow>
        read_fault ev tok tf = Some e \<and> tbl' = tbl) \<and>
   (\<forall>n cfg tbl tblp filledp errsp written k rest.
      symbol_of cfg tok = Some symbol \<and> read_fault ev tok tf = None \<and>
      gaps_of_rows (now ev) tf (select_open_times tbl tok tf) = pre @ g # post \<and>
      fill_gap_list (Suc n) ev symbol tok tf maxCandles pre (tbl, 0, []) = Some (tblp, filledp, errsp) \<and>
      start g < end_g g \<and>
      fetchKlines ev symbol tf (min maxCandles 1000) (start g) (end_g g) = Inr (written @ k # rest) \<and>
      (\<forall>c\<in>set written. write_fault ev tok tf c = None) \<and> write_fault ev tok tf k = Some msg \<longrightarrow>
        fillGaps (Suc n) ev cfg tok tf maxCandles tbl =
          (case fill_gap_list (Suc n) ev symbol tok tf maxCandles post
                  (fold (upsert tok tf) written tblp, filledp, errsp @ [msg]) of
             None \<Rightarrow> None
           | Some (tbl', filled, errs) \<Rightarrow>
               Some (Inr \<lparr>candlesFilled = filled, errors = errs\<rparr>, tbl')) \<and>
        (pages_advance ev symbol tf (min maxCandles 1000) \<and>
         (\<forall>h\<in>set post. nat (end_g h - start h) < Suc n) \<longrightarrow>
           (\<exists>tbl' filled es. fillGaps (Suc n) ev cfg tok tf maxCandles tbl
              = Some (Inr \<lparr>candlesFilled = filled, errors = errsp @ msg # es\<rparr>, tbl')))) \<and>
   (\<forall>fuel cfg tbl tblp filledp errsp tblg filledg.
      symbol_of cfg tok = Some symbol \<and> read_fault ev tok tf = None \<and>
      gaps_of_rows (now ev) tf (select_open_times tbl tok tf) = pre @ g # post \<and>
      fill_gap_list fuel ev symbol tok tf maxCandles pre (tbl, 0, []) = Some (tblp, filledp, errsp) \<and>
      fill_pages fuel ev symbol tok tf maxCandles (start g) (end_g g) tblp filledp
        = Some (Some msg, tblg, filledg) \<longrightarrow>
        fillGaps fuel ev cfg tok tf maxCandles tbl =
          (case fill_gap_list fuel ev symbol tok tf maxCandles post (tblg, filledg, errsp @ [msg]) of
             None \<Rightarrow> None
           | Some (tbl', filled, errs) \<Rightarrow>
               Some (Inr \<lparr>candlesFilled = filled, errors = errs\<rparr>, tbl')) \<and>
        (pages_advance ev symbol tf (min maxCandles 1000) \<and>
         (\<forall>h\<in>set post. nat (end_g h - start h) < fuel) \<longrightarrow>
           (\<exists>tbl' filled es. fillGaps fuel ev cfg tok tf maxCandles tbl
              = Some (Inr \<lparr>candlesFilled = filled, errors = errsp @ msg # es\<rparr>, tbl'))))"
proof (intro conjI allI impI)
  assume "write_fault ev tok tf c = Some msg"
  then show "saveCandle ev tok tf c tbla = Inl msg"
    by (simp add: saveCandle_def)
next
  fix n currentStart tbl filled written k rest
  assume "currentStart < end_g g \<and>
      fetchKlines ev symbol tf (min maxCandles 1000) currentStart (end_g g) = Inr (written @ k # rest) \<and>
      (\<forall>c\<in>set written. write_fault ev tok tf c = None) \<and> write_fault ev tok tf k = Some msg"
  then show "fill_pages (Suc n) ev symbol tok tf maxCandles currentStart (end_g g) tbl filled
          = Some (Some msg, fold (upsert tok tf) written tbl, filled)"
    by (intro fill_pages_write_fault) auto
next
  fix fuel tbl filled errs tbl' filled'
  assume "fill_pages fuel ev symbol tok tf maxCandles (start g) (end_g g) tbl filled
        = Some (Some msg, tbl', filled')"
  then show "fill_gap fuel ev symbol tok tf maxCandles g (tbl, filled, errs)
          = Some (tbl', filled', errs @ [msg])"
    by (rule fill_gap_caught)
next
  fix fuel cfg tbl e tbl'
  assume a: "fillGaps fuel ev cfg tok tf maxCandles tbl = Some (Inl e, tbl')"
  from fillGaps_throws_only_read_fault [OF a]
  show "read_fault ev tok tf = Some e" and "tbl' = tbl" by simp_all
next
  fix n cfg tbl tblp filledp errsp written k rest
  assume a: "symbol_of cfg tok = Some symbol \<and> read_fault ev tok tf = None \<and>
      gaps_of_rows (now ev) tf (select_open_times tbl tok tf) = pre @ g # post \<and>
      fill_gap_list (Suc n) ev symbol tok tf maxCandles pre (tbl, 0, []) = Some (tblp, filledp, errsp) \<and>
      start g < end_g g \<and>
      fetchKlines ev symbol tf (min maxCandles 1000) (start g) (end_g g) = Inr (written @ k # rest) \<and>
      (\<forall>c\<in>set written. write_fault ev tok tf c = None) \<and> write_fault ev tok tf k = Some msg"
  then have p: "fill_pages (Suc n) ev symbol tok tf maxCandles (start g) (end_g g) tblp filledp
      = Some (Some msg, fold (upsert tok tf) written tblp, filledp)"
    by (intro fill_pages_write_fault) auto
  from a p show "fillGaps (Suc n) ev cfg tok tf maxCandles tbl =
          (case fill_gap_list (Suc n) ev symbol tok tf maxCandles post
                  (fold (upsert tok tf) written tblp, filledp, errsp @ [msg]) of
             None \<Rightarrow> None
           | Some (tbl', filled, errs) \<Rightarrow>
               Some (Inr \<lparr>candlesFilled = filled, errors = errs\<rparr>, tbl'))"
    by (intro fillGaps_after_failure) auto
  assume "pages_advance ev symbol tf (min maxCandles 1000) \<and>
         (\<forall>h\<in>set post. nat (end_g h - start h) < Suc n)"
  with a p show "\<exists>tbl' filled es. fillGaps (Suc n) ev cfg tok tf maxCandles tbl
              = Some (Inr \<lparr>candlesFilled = filled, errors = errsp @ msg # es\<rparr>, tbl')"
    by (intro fillGaps_after_failure_returns [where g = g and pre = pre and post = post
          and tblp = tblp and filledp = filledp and tblg = "fold (upsert tok tf) written tblp"
          and filledg = filledp and symbol = symbol]) auto
next
  fix fuel cfg tbl tblp filledp errsp tblg filledg
  assume a: "symbol_of cfg tok = Some symbol \<and> read_fault ev tok tf = None \<and>
      gaps_of_rows (now ev) tf (select_open_times tbl tok tf) = pre @ g # post \<and>
      fill_gap_list fuel ev symbol tok tf maxCandles pre (tbl, 0, []) = Some (tblp, filledp, errsp) \<and>
      fill_pages fuel ev symbol tok tf maxCandles (start g) (end_g g) tblp filledp
        = Some (Some msg, tblg, filledg)"
  then show "fillGaps fuel ev cfg tok tf maxCandles tbl =
          (case fill_gap_list fuel ev symbol tok tf maxCandles post (tblg, filledg, errsp @ [msg]) of
             None \<Rightarrow> None
           | Some (tbl', filled, errs) \<Rightarrow>
               Some (Inr \<lparr>candlesFilled = filled, errors = errs\<rparr>, tbl'))"
    by (intro fillGaps_after_failure) auto
  assume "pages_advance ev symbol tf (min maxCandles 1000) \<and>
         (\<forall>h\<in>set post. nat (end_g h - start h) < fuel)"
  with a show "\<exists>tbl' filled es. fillGaps fuel ev cfg tok tf maxCandles tbl
              = Some (Inr \<lparr>candlesFilled = filled, errors = errsp @ msg # es\<rparr>, tbl')"
    by (intro fillGaps_after_failure_returns [where g = g and pre = pre and post = post
          and tblp = tblp and filledp = filledp and tblg = tblg and filledg = filledg
          and symbol = symbol]) auto
qed

lemma ex_symbol_of: "symbol_of MARKET_CONFIG ''BTC'' = Some ''btcusdt''"
  by (simp add: symbol_of_def MARKET_CONFIG_def)

lemma ex_pages_advance: "pages_advance (ex_env_upstream t) symbol tf limit"
  by (simp add: pages_advance_def ex_env_upstream_def ex_env_def ex_upstream_def ex_candle_def
      ex_hour_def)

lemmas ex_backfill_simps = ex_env_upstream_def ex_env_rejecting_def ex_env_def ex_upstream_def
  ex_candle_def ex_hour_def ex_table_def

text \<open>
  C8 as stated fails: with a pool that rejects every write, \<open>saveCandle\<close> throws
  "Database error", and \<open>fillGaps\<close> returns normally with that message as an entry of
  \<open>errors\<close>.
\<close>

theorem fillGaps_swallows_write_failure:
  "saveCandle (ex_env_rejecting (ex_hour 7)) ''BTC'' ''1h''
     (ex_candle (ex_hour 4) (ex_hour 4 + 3599999) 95 100 90 99 1) (ex_table ''BTC'' ''1h'' [ex_hour 3])
     = Inl ''Database error'' \<and>
   fillGaps 3 (ex_env_rejecting (ex_hour 7)) MARKET_CONFIG ''BTC'' ''1h'' 1000
       (ex_table ''BTC'' ''1h'' [ex_hour 3])
     = Some (Inr \<lparr>candlesFilled = 0, errors = [''Database error'']\<rparr>,
             ex_table ''BTC'' ''1h'' [ex_hour 3])"
  by (simp add: fillGaps_def ex_symbol_of ex_gap_simps fill_gap_def saveCandle_def
      ex_backfill_simps numeral_3_eq_3)

lemma ex_pages_advance_hours: "pages_advance (ex_env_rejecting_hour h t) symbol tf limit"
  by (simp add: pages_advance_def ex_env_rejecting_hour_def ex_env_def ex_upstream_pages_def
      ex_candle_def ex_hour_def)

theorem fillGaps_catches_write_failure_witness:
  "write_fault (ex_env_rejecting_hour 2 (ex_hour 7)) ''BTC'' ''1h''
     (ex_candle (ex_hour 2) (ex_hour 2 + 3599999) 99 101 97 100 2) = Some ''Database error'' \<and>
   saveCandle (ex_env_rejecting_hour 2 (ex_hour 7)) ''BTC'' ''1h''
     (ex_candle (ex_hour 2) (ex_hour 2 + 3599999) 99 101 97 100 2) [] = Inl ''Database error'' \<and>
   gaps_of_rows (now (ex_env_rejecting_hour 2 (ex_hour 7))) ''1h''
       (select_open_times (ex_table ''BTC'' ''1h'' [ex_hour 0, ex_hour 3]) ''BTC'' ''1h'')
     = [] @ ex_gap 1 2 2 # [ex_gap 4 7 3] \<and>
   fetchKlines (ex_env_rejecting_hour 2 (ex_hour 7)) ''btcusdt'' ''1h'' (min 1000 1000)
       (start (ex_gap 1 2 2)) (end_g (ex_gap 1 2 2))
     = Inr ([ex_candle (ex_hour 1) (ex_hour 1 + 3599999) 95 100 90 99 1]
            @ ex_candle (ex_hour 2) (ex_hour 2 + 3599999) 99 101 97 100 2 # []) \<and>
   fill_pages (Suc 2) (ex_env_rejecting_hour 2 (ex_hour 7)) ''btcusdt'' ''BTC'' ''1h'' 1000
       (start (ex_gap 1 2 2)) (end_g (ex_gap 1 2 2)) (ex_table ''BTC'' ''1h'' [ex_hour 0, ex_hour 3]) 0
     = Some (Some ''Database error'',
             ex_table ''BTC'' ''1h'' [ex_hour 0, ex_hour 3]
               @ [\<lparr>token = ''BTC'', timeframe = ''1h'',
                    candle = ex_candle (ex_hour 1) (ex_hour 1 + 3599999) 95 100 90 99 1\<rparr>], 0) \<and>
   fillGaps (Suc 2) (ex_env_rejecting_hour 2 (ex_hour 7)) MARKET_CONFIG ''BTC'' ''1h'' 1000
       (ex_table ''BTC'' ''1h'' [ex_hour 0, ex_hour 3])
     = Some (Inr \<lparr>candlesFilled = 2, errors = [''Database error'']\<rparr>,
             ex_table ''BTC'' ''1h'' [ex_hour 0, ex_hour 3]
               @ [\<lparr>token = ''BTC'', timeframe = ''1h'',
                    candle = ex_candle (ex_hour 1) (ex_hour 1 + 3599999) 95 100 90 99 1\<rparr>,
                  \<lparr>token = ''BTC'', timeframe = ''1h'',
                    candle = ex_candle (ex_hour 4) (ex_hour 4 + 3599999) 95 100 90 99 1\<rparr>,
                  \<lparr>token = ''BTC'', timeframe = ''1h'',
                    candle = ex_candle (ex_hour 5) (ex_hour 5 + 3599999) 99 120 98 110 2\<rparr>]) \<and>
   (\<exists>tbl' filled es.
      fillGaps (Suc 10800000) (ex_env_rejecting_hour 2 (ex_hour 7)) MARKET_CONFIG ''BTC'' ''1h'' 1000
        (ex_table ''BTC'' ''1h'' [ex_hour 0, ex_hour 3])
      = Some (Inr \<lparr>candlesFilled = filled, errors = [] @ ''Database error'' # es\<rparr>, tbl'))"
proof -
  let ?ev = "ex_env_rejecting_hour 2 (ex_hour 7)"
  let ?tbl = "ex_table ''BTC'' ''1h'' [ex_hour 0, ex_hour 3]"
  let ?ka = "ex_candle (ex_hour 1) (ex_hour 1 + 3599999) 95 100 90 99 1"
  let ?kb = "ex_candle (ex_hour 2) (ex_hour 2 + 3599999) 99 101 97 100 2"
  let ?ra = "\<lparr>token = ''BTC'', timeframe = ''1h'', candle = ?ka\<rparr>"
  note t = fillGaps_catches_write_failure [where ev = ?ev and tok = "''BTC''" and tf = "''1h''"
      and c = ?kb and msg = "''Database error''" and g = "ex_gap 1 2 2" and symbol = "''btcusdt''"
      and maxCandles = 1000 and pre = "[]" and post = "[ex_gap 4 7 3]" and tbla = "[]"]
  have w: "write_fault ?ev ''BTC'' ''1h'' ?kb = Some ''Database error''"
    by (simp add: ex_env_rejecting_hour_def ex_candle_def)
  have ok: "\<forall>c\<in>set [?ka]. write_fault ?ev ''BTC'' ''1h'' c = None"
    by (simp add: ex_env_rejecting_hour_def ex_candle_def ex_hour_def)
  have sv: "saveCandle ?ev ''BTC'' ''1h'' ?kb [] = Inl ''Database error''"
    using t [THEN conjunct1] w by blast
  have r: "read_fault ?ev ''BTC'' ''1h'' = None"
    by (simp add: ex_env_rejecting_hour_def ex_env_def)
  have gaps: "gaps_of_rows (now ?ev) ''1h'' (select_open_times ?tbl ''BTC'' ''1h'')
      = [] @ ex_gap 1 2 2 # [ex_gap 4 7 3]"
    by (simp add: ex_gap_simps ex_gap_def ex_env_rejecting_hour_def)
  have lt: "start (ex_gap 1 2 2) < end_g (ex_gap 1 2 2)"
    by (simp add: ex_gap_def ex_hour_def)
  have f: "fetchKlines ?ev ''btcusdt'' ''1h'' (min 1000 1000) (start (ex_gap 1 2 2))
      (end_g (ex_gap 1 2 2)) = Inr ([?ka] @ ?kb # [])"
    by (simp add: ex_env_rejecting_hour_def ex_upstream_pages_def ex_gap_def)
  have up: "fold (upsert ''BTC'' ''1h'') [?ka] ?tbl = ?tbl @ [?ra]"
    by (simp add: ex_table_def ex_candle_def ex_hour_def conflicts_def)
  have pg: "fill_pages (Suc 2) ?ev ''btcusdt'' ''BTC'' ''1h'' 1000 (start (ex_gap 1 2 2))
      (end_g (ex_gap 1 2 2)) ?tbl 0 = Some (Some ''Database error'', fold (upsert ''BTC'' ''1h'') [?ka] ?tbl, 0)"
    by (rule t [THEN conjunct2, THEN conjunct1, rule_format, where written = "[?ka]" and k = ?kb
          and rest = "[]"]) (intro conjI lt f ok w)
  have pre: "\<And>n. fill_gap_list (Suc n) ?ev ''btcusdt'' ''BTC'' ''1h'' 1000 [] (?tbl, 0, [])
      = Some (?tbl, 0, [])"
    by simp
  note t5 = t [THEN conjunct2, THEN conjunct2, THEN conjunct2, THEN conjunct2, THEN conjunct1,
      rule_format, where cfg = MARKET_CONFIG and tbl = ?tbl and tblp = ?tbl and filledp = 0
      and errsp = "[]" and written = "[?ka]" and k = ?kb and rest = "[]"]
  have hyps: "\<And>n. symbol_of MARKET_CONFIG ''BTC'' = Some ''btcusdt'' \<and>
      read_fault ?ev ''BTC'' ''1h'' = None \<and>
      gaps_of_rows (now ?ev) ''1h'' (select_open_times ?tbl ''BTC'' ''1h'')
        = [] @ ex_gap 1 2 2 # [ex_gap 4 7 3] \<and>
      fill_gap_list (Suc n) ?ev ''btcusdt'' ''BTC'' ''1h'' 1000 [] (?tbl, 0, []) = Some (?tbl, 0, []) \<and>
      start (ex_gap 1 2 2) < end_g (ex_gap 1 2 2) \<and>
      fetchKlines ?ev ''btcusdt'' ''1h'' (min 1000 1000) (start (ex_gap 1 2 2)) (end_g (ex_gap 1 2 2))
        = Inr ([?ka] @ ?kb # []) \<and>
      (\<forall>c\<in>set [?ka]. write_fault ?ev ''BTC'' ''1h'' c = None) \<and>
      write_fault ?ev ''BTC'' ''1h'' ?kb = Some ''Database error''"
    by (intro conjI ex_symbol_of r gaps pre lt f ok w)
  have eq: "fillGaps (Suc 2) ?ev MARKET_CONFIG ''BTC'' ''1h'' 1000 ?tbl =
      (case fill_gap_list (Suc 2) ?ev ''btcusdt'' ''BTC'' ''1h'' 1000 [ex_gap 4 7 3]
              (fold (upsert ''BTC'' ''1h'') [?ka] ?tbl, 0, [] @ [''Database error'']) of
         None \<Rightarrow> None
       | Some (tbl', filled, errs) \<Rightarrow> Some (Inr \<lparr>candlesFilled = filled, errors = errs\<rparr>, tbl'))"
    by (rule t5 [where n = 2, OF hyps, THEN conjunct1])
  have later: "fill_gap_list (Suc 2) ?ev ''btcusdt'' ''BTC'' ''1h'' 1000 [ex_gap 4 7 3]
        (?tbl @ [?ra], 0, [] @ [''Database error''])
      = Some (?tbl @ [?ra,
                \<lparr>token = ''BTC'', timeframe = ''1h'',
                  candle = ex_candle (ex_hour 4) (ex_hour 4 + 3599999) 95 100 90 99 1\<rparr>,
                \<lparr>token = ''BTC'', timeframe = ''1h'',
                  candle = ex_candle (ex_hour 5) (ex_hour 5 + 3599999) 99 120 98 110 2\<rparr>],
              2, [''Database error''])"
    by (simp add: fill_gap_def saveCandle_def conflicts_def ex_gap_def ex_env_rejecting_hour_def
        ex_env_def ex_upstream_pages_def ex_candle_def ex_hour_def ex_table_def numeral_2_eq_2)
  have run: "fillGaps (Suc 2) ?ev MARKET_CONFIG ''BTC'' ''1h'' 1000 ?tbl
      = Some (Inr \<lparr>candlesFilled = 2, errors = [''Database error'']\<rparr>,
              ?tbl @ [?ra,
                \<lparr>token = ''BTC'', timeframe = ''1h'',
                  candle = ex_candle (ex_hour 4) (ex_hour 4 + 3599999) 95 100 90 99 1\<rparr>,
                \<lparr>token = ''BTC'', timeframe = ''1h'',
                  candle = ex_candle (ex_hour 5) (ex_hour 5 + 3599999) 99 120 98 110 2\<rparr>])"
    by (simp only: eq up later) simp
  have bound: "\<forall>h\<in>set [ex_gap 4 7 3]. nat (end_g h - start h) < Suc 10800000"
    by (simp add: ex_gap_def ex_hour_def)
  have ret: "\<exists>tbl' filled es. fillGaps (Suc 10800000) ?ev MARKET_CONFIG ''BTC'' ''1h'' 1000 ?tbl
      = Some (Inr \<lparr>candlesFilled = filled, errors = [] @ ''Database error'' # es\<rparr>, tbl')"
    by (rule t5 [where n = 10800000, OF hyps, THEN conjunct2, rule_format])
      (intro conjI ex_pages_advance_hours bound)
  have pg': "fill_pages (Suc 2) ?ev ''btcusdt'' ''BTC'' ''1h'' 1000 (start (ex_gap 1 2 2))
      (end_g (ex_gap 1 2 2)) ?tbl 0 = Some (Some ''Database error'', ?tbl @ [?ra], 0)"
    by (simp only: pg up)
  show ?thesis
    by (intro conjI w sv gaps f pg' run ret)
qed

theorem fillGaps_isolates_fetch_failure_witness:
  "start (ex_gap 1 2 2) < end_g (ex_gap 1 2 2) \<and>
   fetchKlines (ex_env_upstream (ex_hour 7)) ''btcusdt'' ''1h'' (min 1000 1000)
       (start (ex_gap 1 2 2)) (end_g (ex_gap 1 2 2)) = Inl ''HTTP 500: busy'' \<and>
   fill_gap_list (Suc 2) (ex_env_upstream (ex_hour 7)) ''btcusdt'' ''BTC'' ''1h'' 1000
       ([] @ ex_gap 1 2 2 # [ex_gap 4 7 3]) (ex_table ''BTC'' ''1h'' [ex_hour 0, ex_hour 3], 0, [])
     = Some (ex_table ''BTC'' ''1h'' [ex_hour 0, ex_hour 3]
               @ [\<lparr>token = ''BTC'', timeframe = ''1h'',
                    candle = ex_candle (ex_hour 4) (ex_hour 4 + 3599999) 95 100 90 99 1\<rparr>,
                  \<lparr>token = ''BTC'', timeframe = ''1h'',
                    candle = ex_candle (ex_hour 5) (ex_hour 5 + 3599999) 99 120 98 110 2\<rparr>],
             2, [''HTTP 500: busy'']) \<and>
   symbol_of MARKET_CONFIG ''BTC'' = Some ''btcusdt'' \<and>
   read_fault (ex_env_upstream (ex_hour 7)) ''BTC'' ''1h'' = None \<and>
   pages_advance (ex_env_upstream (ex_hour 7)) ''btcusdt'' ''1h'' (min 1000 1000) \<and>
   gaps_of_rows (now (ex_env_upstream (ex_hour 7))) ''1h''
       (select_open_times (ex_table ''BTC'' ''1h'' [ex_hour 0, ex_hour 3]) ''BTC'' ''1h'')
     = [] @ ex_gap 1 2 2 # [ex_gap 4 7 3] \<and>
   fillGaps (Suc 2) (ex_env_upstream (ex_hour 7)) MARKET_CONFIG ''BTC'' ''1h'' 1000
       (ex_table ''BTC'' ''1h'' [ex_hour 0, ex_hour 3])
     = Some (Inr \<lparr>candlesFilled = 2, errors = [''HTTP 500: busy'']\<rparr>,
             ex_table ''BTC'' ''1h'' [ex_hour 0, ex_hour 3]
               @ [\<lparr>token = ''BTC'', timeframe = ''1h'',
                    candle = ex_candle (ex_hour 4) (ex_hour 4 + 3599999) 95 100 90 99 1\<rparr>,
                  \<lparr>token = ''BTC'', timeframe = ''1h'',
                    candle = ex_candle (ex_hour 5) (ex_hour 5 + 3599999) 99 120 98 110 2\<rparr>]) \<and>
   (\<exists>tbl' filled es.
      fillGaps (Suc 10800000) (ex_env_upstream (ex_hour 7)) MARKET_CONFIG ''BTC'' ''1h'' 1000
        (ex_table ''BTC'' ''1h'' [ex_hour 0, ex_hour 3])
      = Some (Inr \<lparr>candlesFilled = filled, errors = [] @ ''HTTP 500: busy'' # es\<rparr>, tbl'))"
proof -
  let ?ev = "ex_env_upstream (ex_hour 7)"
  let ?tbl = "ex_table ''BTC'' ''1h'' [ex_hour 0, ex_hour 3]"
  let ?filled = "?tbl @ [\<lparr>token = ''BTC'', timeframe = ''1h'',
                    candle = ex_candle (ex_hour 4) (ex_hour 4 + 3599999) 95 100 90 99 1\<rparr>,
                  \<lparr>token = ''BTC'', timeframe = ''1h'',
                    candle = ex_candle (ex_hour 5) (ex_hour 5 + 3599999) 99 120 98 110 2\<rparr>]"
  note t = fillGaps_isolates_fetch_failure [where ev = ?ev and tok = "''BTC''" and tf = "''1h''"
      and msg = "''HTTP 500: busy''" and g = "ex_gap 1 2 2" and symbol = "''btcusdt''"
      and maxCandles = 1000 and pre = "[]" and post = "[ex_gap 4 7 3]"
      and st = "(?tbl, 0, [])" and fuel = 3]
  have lt: "start (ex_gap 1 2 2) < end_g (ex_gap 1 2 2)"
    by (simp add: ex_gap_def ex_hour_def)
  have f: "fetchKlines ?ev ''btcusdt'' ''1h'' (min 1000 1000) (start (ex_gap 1 2 2))
      (end_g (ex_gap 1 2 2)) = Inl ''HTTP 500: busy''"
    by (simp add: ex_env_upstream_def ex_upstream_def ex_gap_def)
  have pre: "\<And>n. fill_gap_list (Suc n) ?ev ''btcusdt'' ''BTC'' ''1h'' 1000 [] (?tbl, 0, [])
      = Some (?tbl, 0, [])"
    by simp
  have later: "fill_gap_list (Suc 2) ?ev ''btcusdt'' ''BTC'' ''1h'' 1000 [ex_gap 4 7 3]
          (?tbl, 0, [] @ [''HTTP 500: busy'']) = Some (?filled, 2, [''HTTP 500: busy''])"
    by (simp add: fill_gap_def saveCandle_def conflicts_def ex_gap_def ex_backfill_simps
        numeral_2_eq_2)
  note t2 = t [THEN conjunct2, THEN conjunct1, rule_format, where n = 2 and tblp = ?tbl
      and filledp = 0 and errsp = "[]"]
  have "fill_gap_list (Suc 2) ?ev ''btcusdt'' ''BTC'' ''1h'' 1000
          ([] @ ex_gap 1 2 2 # [ex_gap 4 7 3]) (?tbl, 0, [])
      = fill_gap_list (Suc 2) ?ev ''btcusdt'' ''BTC'' ''1h'' 1000 [ex_gap 4 7 3]
          (?tbl, 0, [] @ [''HTTP 500: busy''])"
    by (rule t2) (intro conjI pre lt f)
  then have loop: "fill_gap_list (Suc 2) ?ev ''btcusdt'' ''BTC'' ''1h'' 1000
          ([] @ ex_gap 1 2 2 # [ex_gap 4 7 3]) (?tbl, 0, []) = Some (?filled, 2, [''HTTP 500: busy''])"
    by (simp only: later)
  have r: "read_fault ?ev ''BTC'' ''1h'' = None"
    by (simp add: ex_env_upstream_def ex_env_def)
  have gaps: "gaps_of_rows (now ?ev) ''1h'' (select_open_times ?tbl ''BTC'' ''1h'')
      = [] @ ex_gap 1 2 2 # [ex_gap 4 7 3]"
    by (simp add: ex_gap_simps ex_gap_def ex_env_upstream_def)
  note t7 = t [THEN conjunct2, THEN conjunct2, THEN conjunct2, THEN conjunct2, THEN conjunct2,
      THEN conjunct2, THEN conjunct1, rule_format, where cfg = MARKET_CONFIG and tbl = ?tbl
      and tblp = ?tbl and filledp = 0 and errsp = "[]"]
  have hyps: "\<And>n. symbol_of MARKET_CONFIG ''BTC'' = Some ''btcusdt'' \<and>
      read_fault ?ev ''BTC'' ''1h'' = None \<and>
      gaps_of_rows (now ?ev) ''1h'' (select_open_times ?tbl ''BTC'' ''1h'')
        = [] @ ex_gap 1 2 2 # [ex_gap 4 7 3] \<and>
      fill_gap_list (Suc n) ?ev ''btcusdt'' ''BTC'' ''1h'' 1000 [] (?tbl, 0, []) = Some (?tbl, 0, []) \<and>
      start (ex_gap 1 2 2) < end_g (ex_gap 1 2 2) \<and>
      fetchKlines ?ev ''btcusdt'' ''1h'' (min 1000 1000) (start (ex_gap 1 2 2)) (end_g (ex_gap 1 2 2))
        = Inl ''HTTP 500: busy''"
    by (intro conjI ex_symbol_of r gaps pre lt f)
  have eq: "fillGaps (Suc 2) ?ev MARKET_CONFIG ''BTC'' ''1h'' 1000 ?tbl =
      (case fill_gap_list (Suc 2) ?ev ''btcusdt'' ''BTC'' ''1h'' 1000 [ex_gap 4 7 3]
              (?tbl, 0, [] @ [''HTTP 500: busy'']) of
         None \<Rightarrow> None
       | Some (tbl', filled, errs) \<Rightarrow> Some (Inr \<lparr>candlesFilled = filled, errors = errs\<rparr>, tbl'))"
    by (rule t7 [where n = 2, OF hyps, THEN conjunct1])
  have run: "fillGaps (Suc 2) ?ev MARKET_CONFIG ''BTC'' ''1h'' 1000 ?tbl
      = Some (Inr \<lparr>candlesFilled = 2, errors = [''HTTP 500: busy'']\<rparr>, ?filled)"
    by (simp only: eq later) simp
  have bound: "\<forall>h\<in>set [ex_gap 4 7 3]. nat (end_g h - start h) < Suc 10800000"
    by (simp add: ex_gap_def ex_hour_def)
  have ret: "\<exists>tbl' filled es. fillGaps (Suc 10800000) ?ev MARKET_CONFIG ''BTC'' ''1h'' 1000 ?tbl
      = Some (Inr \<lparr>candlesFilled = filled, errors = [] @ ''HTTP 500: busy'' # es\<rparr>, tbl')"
    by (rule t7 [where n = 10800000, OF hyps, THEN conjunct2, rule_format])
      (intro conjI ex_pages_advance bound)
  show ?thesis
    by (intro conjI lt f loop ex_symbol_of r ex_pages_advance gaps run ret)
qed

section \<open>Properties of the pass over all pairs\<close>

lemma guard_invariant_step: "guard_invariant p \<Longrightarrow> guard_invariant (step p e)"
  by (cases e) (auto simp: guard_invariant_def fillAllGaps_enter_def fillAllGaps_finally_def)

lemma guard_invariant_foldl: "guard_invariant p \<Longrightarrow> guard_invariant (foldl step p events)"
  by (induction events arbitrary: p) (simp_all add: guard_invariant_step)

lemma guard_invariant_run: "guard_invariant (run tbl cfg events)"
  unfolding run_def
  by (rule guard_invariant_foldl) (simp add: guard_invariant_def new_DataManager_def)

lemma all_pairs_product: "all_pairs cfg = List.product (map fst cfg) [''5m'', ''1h'', ''1d'']"
  by (induction cfg) (simp_all add: all_pairs_def timeframes_def)

lemma run_pairs_length:
  "run_pairs fuel ev cfg ps tbl = Some (results, tbl') \<Longrightarrow> length results = length ps"
  by (induction ps arbitrary: tbl results) (auto split: option.splits prod.splits)

text \<open>
  What a pass that returns has done: its tables form a chain from the table before the
  pass to the table after it, each link one call of \<open>fillGaps\<close> for the pair of that
  place with \<open>maxCandles\<close> 1000, and the result of that place is what the call returned
  or the object made of what it threw. A pass returns when every call does.
\<close>

lemma run_pairs_trace:
  "run_pairs fuel ev cfg ps tbl = Some (results, tbl') \<Longrightarrow>
   \<exists>tbls. length tbls = Suc (length ps) \<and> tbls ! 0 = tbl \<and> tbls ! length ps = tbl' \<and>
     (\<forall>i<length ps. \<exists>res.
        fillGaps fuel ev cfg (fst (ps ! i)) (snd (ps ! i)) 1000 (tbls ! i) = Some (res, tbls ! Suc i) \<and>
        results ! i = (case res of Inl msg \<Rightarrow> Failed (fst (ps ! i)) (snd (ps ! i)) msg
                       | Inr r \<Rightarrow> Filled r))"
proof (induction ps arbitrary: tbl results)
  case Nil
  then have "length [tbl] = Suc (length ([] :: (token \<times> timeframe) list)) \<and> [tbl] ! 0 = tbl \<and>
      [tbl] ! length ([] :: (token \<times> timeframe) list) = tbl'"
    by simp
  then show ?case by (intro exI [of _ "[tbl]"]) simp
next
  case (Cons p ps)
  from Cons.prems obtain res tblm rs where
    first: "fillGaps fuel ev cfg (fst p) (snd p) 1000 tbl = Some (res, tblm)"
    and rest: "run_pairs fuel ev cfg ps tblm = Some (rs, tbl')"
    and results: "results = (case res of Inl msg \<Rightarrow> Failed (fst p) (snd p) msg | Inr r \<Rightarrow> Filled r) # rs"
    by (auto split: option.splits prod.splits)
  from Cons.IH [OF rest] obtain tbls where
    len: "length tbls = Suc (length ps)" and hd: "tbls ! 0 = tblm" and lst: "tbls ! length ps = tbl'"
    and tr: "\<forall>i<length ps. \<exists>res.
        fillGaps fuel ev cfg (fst (ps ! i)) (snd (ps ! i)) 1000 (tbls ! i) = Some (res, tbls ! Suc i) \<and>
        rs ! i = (case res of Inl msg \<Rightarrow> Failed (fst (ps ! i)) (snd (ps ! i)) msg
                  | Inr r \<Rightarrow> Filled r)"
    by blast
  have "\<forall>i<length (p # ps). \<exists>res.
        fillGaps fuel ev cfg (fst ((p # ps) ! i)) (snd ((p # ps) ! i)) 1000 ((tbl # tbls) ! i)
          = Some (res, (tbl # tbls) ! Suc i) \<and>
        results ! i = (case res of Inl msg \<Rightarrow> Failed (fst ((p # ps) ! i)) (snd ((p # ps) ! i)) msg
                       | Inr r \<Rightarrow> Filled r)"
  proof (intro allI impI)
    fix i assume i: "i < length (p # ps)"
    show "\<exists>res.
        fillGaps fuel ev cfg (fst ((p # ps) ! i)) (snd ((p # ps) ! i)) 1000 ((tbl # tbls) ! i)
          = Some (res, (tbl # tbls) ! Suc i) \<and>
        results ! i = (case res of Inl msg \<Rightarrow> Failed (fst ((p # ps) ! i)) (snd ((p # ps) ! i)) msg
                       | Inr r \<Rightarrow> Filled r)"
    proof (cases i)
      case 0
      with first hd results show ?thesis by (simp split: sum.splits)
    next
      case (Suc j)
      with i have "j < length ps" by simp
      with tr obtain r where
        "fillGaps fuel ev cfg (fst (ps ! j)) (snd (ps ! j)) 1000 (tbls ! j) = Some (r, tbls ! Suc j)"
        "rs ! j = (case r of Inl msg \<Rightarrow> Failed (fst (ps ! j)) (snd (ps ! j)) msg | Inr r \<Rightarrow> Filled r)"
        by blast
      with Suc results show ?thesis by (simp split: sum.splits)
    qed
  qed
  moreover have "length (tbl # tbls) = Suc (length (p # ps))" using len by simp
  moreover have "(tbl # tbls) ! 0 = tbl" by simp
  moreover have "(tbl # tbls) ! length (p # ps) = tbl'" using lst by simp
  ultimately show ?case by blast
qed

lemma run_pairs_returns:
  "\<forall>tok tf tbl. fillGaps fuel ev cfg tok tf 1000 tbl \<noteq> None \<Longrightarrow>
   run_pairs fuel ev cfg ps tbl \<noteq> None"
proof (induction ps arbitrary: tbl)
  case Nil
  then show ?case by simp
next
  case (Cons p ps)
  have "fillGaps fuel ev cfg (fst p) (snd p) 1000 tbl \<noteq> None"
    using Cons.prems by blast
  then obtain x where x: "fillGaps fuel ev cfg (fst p) (snd p) 1000 tbl = Some x"
    by blast
  have "run_pairs fuel ev cfg ps (snd x) \<noteq> None"
    using Cons.prems by (rule Cons.IH)
  then obtain y where "run_pairs fuel ev cfg ps (snd x) = Some y"
    by blast
  with x show ?case by (cases x; cases y) simp
qed

text \<open>
  C6. After every sequence of events of a \<open>DataManager\<close> at most one pass is running,
  and the flag is set exactly while one is; a call of \<open>fillAllGaps\<close> while a pass is
  running changes nothing. With the flag set, \<open>fillAllGaps\<close> returns the empty list at
  once, for every environment and all fuel, and leaves the manager and its table as they
  are: it detects no gap, fetches nothing, writes nothing and starts no pass. With the
  flag clear, it sets the flag and runs \<open>fillGaps\<close> for every pair of the Cartesian
  product of the configured tokens and the timeframes 5m, 1h, 1d: when it returns, it has
  one result for each pair, the result at each place is that of \<open>fillGaps\<close> for the pair
  at that place, run on the table the call before it left, the table of the manager is
  the one the last call left, and the flag is clear again; and it returns whenever every
  call of \<open>fillGaps\<close> does.
\<close>

theorem fillAllGaps_single_pass:
  "running (run init_tbl init_cfg events) \<le> 1 \<and>
   (isFillingGaps (manager (run init_tbl init_cfg events)) \<longleftrightarrow> running (run init_tbl init_cfg events) = 1) \<and>
   (running (run init_tbl init_cfg events) = 1 \<longrightarrow>
      run init_tbl init_cfg (events @ [Invoke]) = run init_tbl init_cfg events) \<and>
   (isFillingGaps dm \<longrightarrow>
      fillAllGaps_enter dm = Inl [] \<and>
      fillAllGaps fuel ev dm = Some ([], dm) \<and>
      step \<lparr>manager = dm, running = k\<rparr> Invoke = \<lparr>manager = dm, running = k\<rparr>) \<and>
   (\<not> isFillingGaps dm \<longrightarrow>
      fillAllGaps_enter dm = Inr (dm\<lparr>isFillingGaps := True\<rparr>) \<and>
      step \<lparr>manager = dm, running = k\<rparr> Invoke
        = \<lparr>manager = dm\<lparr>isFillingGaps := True\<rparr>, running = k + 1\<rparr> \<and>
      fillAllGaps fuel ev dm =
        (case run_pairs fuel ev (marketConfig dm)
                (List.product (map fst (marketConfig dm)) [''5m'', ''1h'', ''1d'']) (pool dm) of
           None \<Rightarrow> None
         | Some (results, tbl') \<Rightarrow> Some (results, dm\<lparr>pool := tbl'\<rparr>))) \<and>
   (\<forall>results dm'. \<not> isFillingGaps dm \<and> fillAllGaps fuel ev dm = Some (results, dm') \<longrightarrow>
      length results = 3 * length (marketConfig dm) \<and> \<not> isFillingGaps dm') \<and>
   (\<forall>results dm'. \<not> isFillingGaps dm \<and> fillAllGaps fuel ev dm = Some (results, dm') \<longrightarrow>
      (\<exists>tbls.
         length tbls = Suc (length (List.product (map fst (marketConfig dm)) [''5m'', ''1h'', ''1d''])) \<and>
         tbls ! 0 = pool dm \<and>
         tbls ! length (List.product (map fst (marketConfig dm)) [''5m'', ''1h'', ''1d'']) = pool dm' \<and>
         (\<forall>i<length (List.product (map fst (marketConfig dm)) [''5m'', ''1h'', ''1d'']). \<exists>res.
            fillGaps fuel ev (marketConfig dm)
                (fst (List.product (map fst (marketConfig dm)) [''5m'', ''1h'', ''1d''] ! i))
                (snd (List.product (map fst (marketConfig dm)) [''5m'', ''1h'', ''1d''] ! i))
                1000 (tbls ! i)
              = Some (res, tbls ! Suc i) \<and>
            results ! i =
              (case res of
                 Inl msg \<Rightarrow>
                   Failed (fst (List.product (map fst (marketConfig dm)) [''5m'', ''1h'', ''1d''] ! i))
                     (snd (List.product (map fst (marketConfig dm)) [''5m'', ''1h'', ''1d''] ! i)) msg
               | Inr r \<Rightarrow> Filled r)))) \<and>
   (\<not> isFillingGaps dm \<and>
    (\<forall>tok tf tbl. fillGaps fuel ev (marketConfig dm) tok tf 1000 tbl \<noteq> None) \<longrightarrow>
      (\<exists>results dm'. fillAllGaps fuel ev dm = Some (results, dm')))"
proof (intro conjI allI impI)
  show "running (run init_tbl init_cfg events) \<le> 1"
    using guard_invariant_run [of init_tbl init_cfg events] by (simp add: guard_invariant_def)
next
  show "isFillingGaps (manager (run init_tbl init_cfg events)) \<longleftrightarrow> running (run init_tbl init_cfg events) = 1"
    using guard_invariant_run [of init_tbl init_cfg events] by (simp add: guard_invariant_def)
next
  assume "running (run init_tbl init_cfg events) = 1"
  then have "isFillingGaps (manager (run init_tbl init_cfg events))"
    using guard_invariant_run [of init_tbl init_cfg events] by (simp add: guard_invariant_def)
  then have "step (run init_tbl init_cfg events) Invoke = run init_tbl init_cfg events"
    by (simp add: fillAllGaps_enter_def)
  then show "run init_tbl init_cfg (events @ [Invoke]) = run init_tbl init_cfg events"
    by (simp add: run_def)
next
  assume "isFillingGaps dm"
  then show "fillAllGaps_enter dm = Inl []" and "fillAllGaps fuel ev dm = Some ([], dm)"
    and "step \<lparr>manager = dm, running = k\<rparr> Invoke = \<lparr>manager = dm, running = k\<rparr>"
    by (simp_all add: fillAllGaps_enter_def fillAllGaps_def)
next
  assume a: "\<not> isFillingGaps dm"
  then show "fillAllGaps_enter dm = Inr (dm\<lparr>isFillingGaps := True\<rparr>)"
    and "step \<lparr>manager = dm, running = k\<rparr> Invoke
        = \<lparr>manager = dm\<lparr>isFillingGaps := True\<rparr>, running = k + 1\<rparr>"
    by (simp_all add: fillAllGaps_enter_def)
  from a show "fillAllGaps fuel ev dm =
        (case run_pairs fuel ev (marketConfig dm)
                (List.product (map fst (marketConfig dm)) [''5m'', ''1h'', ''1d'']) (pool dm) of
           None \<Rightarrow> None
         | Some (results, tbl') \<Rightarrow> Some (results, dm\<lparr>pool := tbl'\<rparr>))"
    by (simp add: fillAllGaps_def fillAllGaps_enter_def fillAllGaps_finally_def all_pairs_product
        split: option.splits)
next
  fix results dm'
  assume a: "\<not> isFillingGaps dm \<and> fillAllGaps fuel ev dm = Some (results, dm')"
  then obtain tbl' where r: "run_pairs fuel ev (marketConfig dm) (all_pairs (marketConfig dm)) (pool dm)
      = Some (results, tbl')" and d: "dm' = fillAllGaps_finally (dm\<lparr>isFillingGaps := True, pool := tbl'\<rparr>)"
    by (auto simp: fillAllGaps_def fillAllGaps_enter_def split: option.splits)
  from run_pairs_length [OF r] show "length results = 3 * length (marketConfig dm)"
    by (simp add: all_pairs_product)
  from d show "\<not> isFillingGaps dm'"
    by (simp add: fillAllGaps_finally_def)
next
  fix results dm'
  assume a: "\<not> isFillingGaps dm \<and> fillAllGaps fuel ev dm = Some (results, dm')"
  then obtain tbl' where r: "run_pairs fuel ev (marketConfig dm)
      (List.product (map fst (marketConfig dm)) [''5m'', ''1h'', ''1d'']) (pool dm) = Some (results, tbl')"
    and d: "pool dm' = tbl'"
    by (auto simp: fillAllGaps_def fillAllGaps_enter_def fillAllGaps_finally_def all_pairs_product
        split: option.splits)
  from run_pairs_trace [OF r] d
  show "\<exists>tbls.
         length tbls = Suc (length (List.product (map fst (marketConfig dm)) [''5m'', ''1h'', ''1d''])) \<and>
         tbls ! 0 = pool dm \<and>
         tbls ! length (List.product (map fst (marketConfig dm)) [''5m'', ''1h'', ''1d'']) = pool dm' \<and>
         (\<forall>i<length (List.product (map fst (marketConfig dm)) [''5m'', ''1h'', ''1d'']). \<exists>res.
            fillGaps fuel ev (marketConfig dm)
                (fst (List.product (map fst (marketConfig dm)) [''5m'', ''1h'', ''1d''] ! i))
                (snd (List.product (map fst (marketConfig dm)) [''5m'', ''1h'', ''1d''] ! i))
                1000 (tbls ! i)
              = Some (res, tbls ! Suc i) \<and>
            results ! i =
              (case res of
                 Inl msg \<Rightarrow>
                   Failed (fst (List.product (map fst (marketConfig dm)) [''5m'', ''1h'', ''1d''] ! i))
                     (snd (List.product (map fst (marketConfig dm)) [''5m'', ''1h'', ''1d''] ! i)) msg
               | Inr r \<Rightarrow> Filled r))"
    by simp
next
  assume a: "\<not> isFillingGaps dm \<and>
    (\<forall>tok tf tbl. fillGaps fuel ev (marketConfig dm) tok tf 1000 tbl \<noteq> None)"
  then have "run_pairs fuel ev (marketConfig dm) (all_pairs (marketConfig dm)) (pool dm) \<noteq> None"
    by (intro run_pairs_returns) blast
  then obtain y where "run_pairs fuel ev (marketConfig dm) (all_pairs (marketConfig dm)) (pool dm) = Some y"
    by blast
  with a show "\<exists>results dm'. fillAllGaps fuel ev dm = Some (results, dm')"
    by (cases y) (simp add: fillAllGaps_def fillAllGaps_enter_def)
qed

lemma ex_fill_gap_list_returns:
  "fill_gap_list (Suc n) (ex_env t) symbol tok tf maxCandles gaps st = Some st"
proof (induction gaps)
  case Nil
  then show ?case by simp
next
  case (Cons g gaps)
  have "fill_gap (Suc n) (ex_env t) symbol tok tf maxCandles g st = Some st"
    by (cases st) (simp add: fill_gap_def ex_env_def)
  with Cons show ?case by simp
qed

lemma ex_fillGaps_returns: "fillGaps (Suc n) (ex_env t) cfg tok tf maxCandles tbl \<noteq> None"
  by (simp add: fillGaps_def findDataGaps_def ex_fill_gap_list_returns
      split: option.splits sum.splits)

theorem fillAllGaps_single_pass_witness:
  "isFillingGaps (manager (run (ex_table ''BTC'' ''1h'' [ex_hour 0, ex_hour 3]) MARKET_CONFIG [Invoke])) \<and>
   running (run (ex_table ''BTC'' ''1h'' [ex_hour 0, ex_hour 3]) MARKET_CONFIG [Invoke]) = 1 \<and>
   run (ex_table ''BTC'' ''1h'' [ex_hour 0, ex_hour 3]) MARKET_CONFIG ([Invoke] @ [Invoke])
     = run (ex_table ''BTC'' ''1h'' [ex_hour 0, ex_hour 3]) MARKET_CONFIG [Invoke] \<and>
   fillAllGaps 3 (ex_env_upstream (ex_hour 7))
       (manager (run (ex_table ''BTC'' ''1h'' [ex_hour 0, ex_hour 3]) MARKET_CONFIG [Invoke]))
     = Some ([], manager (run (ex_table ''BTC'' ''1h'' [ex_hour 0, ex_hour 3]) MARKET_CONFIG [Invoke])) \<and>
   running (run (ex_table ''BTC'' ''1h'' [ex_hour 0, ex_hour 3]) MARKET_CONFIG [Invoke, Settle]) = 0 \<and>
   \<not> isFillingGaps (new_DataManager (ex_table ''BTC'' ''1h'' [ex_hour 0, ex_hour 3]) MARKET_CONFIG) \<and>
   fillAllGaps 3 (ex_env_upstream (ex_hour 7))
       (new_DataManager (ex_table ''BTC'' ''1h'' [ex_hour 0, ex_hour 3]) MARKET_CONFIG)
     = Some ([Filled \<lparr>candlesFilled = 2, errors = []\<rparr>,
              Filled \<lparr>candlesFilled = 2, errors = [''HTTP 500: busy'']\<rparr>,
              Filled \<lparr>candlesFilled = 2, errors = []\<rparr>,
              Filled \<lparr>candlesFilled = 2, errors = []\<rparr>,
              Filled \<lparr>candlesFilled = 2, errors = []\<rparr>,
              Filled \<lparr>candlesFilled = 2, errors = []\<rparr>,
              Filled \<lparr>candlesFilled = 2, errors = []\<rparr>,
              Filled \<lparr>candlesFilled = 2, errors = []\<rparr>,
              Filled \<lparr>candlesFilled = 2, errors = []\<rparr>,
              Filled \<lparr>candlesFilled = 2, errors = []\<rparr>,
              Filled \<lparr>candlesFilled = 2, errors = []\<rparr>,
              Filled \<lparr>candlesFilled = 2, errors = []\<rparr>],
             \<lparr>pool = ex_table ''BTC'' ''1h'' [ex_hour 0, ex_hour 3]
                  @ concat (map (\<lambda>p.
                       [\<lparr>token = fst p, timeframe = snd p,
                          candle = ex_candle (ex_hour 4) (ex_hour 4 + 3599999) 95 100 90 99 1\<rparr>,
                        \<lparr>token = fst p, timeframe = snd p,
                          candle = ex_candle (ex_hour 5) (ex_hour 5 + 3599999) 99 120 98 110 2\<rparr>])
                     (List.product [''BTC'', ''ETH'', ''SOL'', ''ADA''] [''5m'', ''1h'', ''1d''])),
                marketConfig = MARKET_CONFIG, isFillingGaps = False\<rparr>) \<and>
   (\<exists>results dm'.
      fillAllGaps 3 (ex_env_upstream (ex_hour 7))
          (new_DataManager (ex_table ''BTC'' ''1h'' [ex_hour 0, ex_hour 3]) MARKET_CONFIG)
        = Some (results, dm') \<and>
      length results = 3 * length MARKET_CONFIG \<and>
      (\<exists>tbls.
         length tbls = Suc (length (List.product (map fst MARKET_CONFIG) [''5m'', ''1h'', ''1d''])) \<and>
         tbls ! 0 = ex_table ''BTC'' ''1h'' [ex_hour 0, ex_hour 3] \<and>
         tbls ! length (List.product (map fst MARKET_CONFIG) [''5m'', ''1h'', ''1d'']) = pool dm' \<and>
         (\<exists>res. fillGaps 3 (ex_env_upstream (ex_hour 7)) MARKET_CONFIG
                   (fst (List.product (map fst MARKET_CONFIG) [''5m'', ''1h'', ''1d''] ! 1))
                   (snd (List.product (map fst MARKET_CONFIG) [''5m'', ''1h'', ''1d''] ! 1))
                   1000 (tbls ! 1)
                 = Some (res, tbls ! Suc 1) \<and>
               results ! 1 =
                 (case res of
                    Inl msg \<Rightarrow>
                      Failed (fst (List.product (map fst MARKET_CONFIG) [''5m'', ''1h'', ''1d''] ! 1))
                        (snd (List.product (map fst MARKET_CONFIG) [''5m'', ''1h'', ''1d''] ! 1)) msg
                  | Inr r \<Rightarrow> Filled r)))) \<and>
   (\<exists>results dm'. fillAllGaps (Suc 1) (ex_env (ex_hour 7))
       (new_DataManager (ex_table ''BTC'' ''1h'' [ex_hour 0, ex_hour 3]) MARKET_CONFIG)
     = Some (results, dm'))"
proof -
  let ?tbl = "ex_table ''BTC'' ''1h'' [ex_hour 0, ex_hour 3]"
  let ?busy = "manager (run ?tbl MARKET_CONFIG [Invoke])"
  let ?idle = "new_DataManager ?tbl MARKET_CONFIG"
  let ?ev = "ex_env_upstream (ex_hour 7)"
  let ?results = "[Filled \<lparr>candlesFilled = 2, errors = []\<rparr>,
              Filled \<lparr>candlesFilled = 2, errors = [''HTTP 500: busy'']\<rparr>,
              Filled \<lparr>candlesFilled = 2, errors = []\<rparr>,
              Filled \<lparr>candlesFilled = 2, errors = []\<rparr>,
              Filled \<lparr>candlesFilled = 2, errors = []\<rparr>,
              Filled \<lparr>candlesFilled = 2, errors = []\<rparr>,
              Filled \<lparr>candlesFilled = 2, errors = []\<rparr>,
              Filled \<lparr>candlesFilled = 2, errors = []\<rparr>,
              Filled \<lparr>candlesFilled = 2, errors = []\<rparr>,
              Filled \<lparr>candlesFilled = 2, errors = []\<rparr>,
              Filled \<lparr>candlesFilled = 2, errors = []\<rparr>,
              Filled \<lparr>candlesFilled = 2, errors = []\<rparr>]"
  let ?after = "\<lparr>pool = ?tbl
                  @ concat (map (\<lambda>p.
                       [\<lparr>token = fst p, timeframe = snd p,
                          candle = ex_candle (ex_hour 4) (ex_hour 4 + 3599999) 95 100 90 99 1\<rparr>,
                        \<lparr>token = fst p, timeframe = snd p,
                          candle = ex_candle (ex_hour 5) (ex_hour 5 + 3599999) 99 120 98 110 2\<rparr>])
                     (List.product [''BTC'', ''ETH'', ''SOL'', ''ADA''] [''5m'', ''1h'', ''1d''])),
                marketConfig = MARKET_CONFIG, isFillingGaps = False\<rparr>"
  have b: "isFillingGaps ?busy"
    by (simp add: run_def new_DataManager_def fillAllGaps_enter_def)
  have r1: "running (run ?tbl MARKET_CONFIG [Invoke]) = 1"
    by (simp add: run_def new_DataManager_def fillAllGaps_enter_def)
  have r0: "running (run ?tbl MARKET_CONFIG [Invoke, Settle]) = 0"
    by (simp add: run_def new_DataManager_def fillAllGaps_enter_def)
  have i: "\<not> isFillingGaps ?idle"
    by (simp add: new_DataManager_def)
  have mc: "marketConfig ?idle = MARKET_CONFIG" and pl: "pool ?idle = ?tbl"
    by (simp_all add: new_DataManager_def)
  note t1 = fillAllGaps_single_pass [where dm = ?busy and init_tbl = ?tbl and init_cfg = MARKET_CONFIG
      and events = "[Invoke]" and fuel = 3 and ev = ?ev]
  note t2 = fillAllGaps_single_pass [where dm = ?idle and fuel = 3 and ev = ?ev]
  note t3 = fillAllGaps_single_pass [where dm = ?idle and fuel = "Suc 1" and ev = "ex_env (ex_hour 7)"]
  have again: "run ?tbl MARKET_CONFIG ([Invoke] @ [Invoke]) = run ?tbl MARKET_CONFIG [Invoke]"
    using t1 [THEN conjunct2, THEN conjunct2, THEN conjunct1] r1 by blast
  have busy: "fillAllGaps 3 ?ev ?busy = Some ([], ?busy)"
    using t1 [THEN conjunct2, THEN conjunct2, THEN conjunct2, THEN conjunct1] b by blast
  have idle: "fillAllGaps 3 ?ev ?idle = Some (?results, ?after)"
    by code_simp
  have len: "length ?results = 3 * length (marketConfig ?idle)"
    using t2 [THEN conjunct2, THEN conjunct2, THEN conjunct2, THEN conjunct2, THEN conjunct2,
        THEN conjunct1, rule_format, of ?results ?after] i idle by blast
  from t2 [THEN conjunct2, THEN conjunct2, THEN conjunct2, THEN conjunct2, THEN conjunct2,
        THEN conjunct2, THEN conjunct1, rule_format, of ?results ?after] i idle
  obtain tbls where
    tl: "length tbls = Suc (length (List.product (map fst (marketConfig ?idle)) [''5m'', ''1h'', ''1d'']))"
    and th: "tbls ! 0 = pool ?idle"
    and tf: "tbls ! length (List.product (map fst (marketConfig ?idle)) [''5m'', ''1h'', ''1d'']) = pool ?after"
    and tr: "\<forall>i<length (List.product (map fst (marketConfig ?idle)) [''5m'', ''1h'', ''1d'']). \<exists>res.
            fillGaps 3 ?ev (marketConfig ?idle)
                (fst (List.product (map fst (marketConfig ?idle)) [''5m'', ''1h'', ''1d''] ! i))
                (snd (List.product (map fst (marketConfig ?idle)) [''5m'', ''1h'', ''1d''] ! i))
                1000 (tbls ! i)
              = Some (res, tbls ! Suc i) \<and>
            ?results ! i =
              (case res of
                 Inl msg \<Rightarrow>
                   Failed (fst (List.product (map fst (marketConfig ?idle)) [''5m'', ''1h'', ''1d''] ! i))
                     (snd (List.product (map fst (marketConfig ?idle)) [''5m'', ''1h'', ''1d''] ! i)) msg
               | Inr r \<Rightarrow> Filled r)"
    by blast
  have "(1::nat) < length (List.product (map fst (marketConfig ?idle)) [''5m'', ''1h'', ''1d''])"
    by (simp add: new_DataManager_def MARKET_CONFIG_def)
  with tr have one: "\<exists>res.
            fillGaps 3 ?ev (marketConfig ?idle)
                (fst (List.product (map fst (marketConfig ?idle)) [''5m'', ''1h'', ''1d''] ! 1))
                (snd (List.product (map fst (marketConfig ?idle)) [''5m'', ''1h'', ''1d''] ! 1))
                1000 (tbls ! 1)
              = Some (res, tbls ! Suc 1) \<and>
            ?results ! 1 =
              (case res of
                 Inl msg \<Rightarrow>
                   Failed (fst (List.product (map fst (marketConfig ?idle)) [''5m'', ''1h'', ''1d''] ! 1))
                     (snd (List.product (map fst (marketConfig ?idle)) [''5m'', ''1h'', ''1d''] ! 1)) msg
               | Inr r \<Rightarrow> Filled r)"
    by blast
  have trace: "\<exists>results dm'.
      fillAllGaps 3 ?ev ?idle = Some (results, dm') \<and>
      length results = 3 * length MARKET_CONFIG \<and>
      (\<exists>tbls.
         length tbls = Suc (length (List.product (map fst MARKET_CONFIG) [''5m'', ''1h'', ''1d''])) \<and>
         tbls ! 0 = ?tbl \<and>
         tbls ! length (List.product (map fst MARKET_CONFIG) [''5m'', ''1h'', ''1d'']) = pool dm' \<and>
         (\<exists>res. fillGaps 3 ?ev MARKET_CONFIG
                   (fst (List.product (map fst MARKET_CONFIG) [''5m'', ''1h'', ''1d''] ! 1))
                   (snd (List.product (map fst MARKET_CONFIG) [''5m'', ''1h'', ''1d''] ! 1))
                   1000 (tbls ! 1)
                 = Some (res, tbls ! Suc 1) \<and>
               results ! 1 =
                 (case res of
                    Inl msg \<Rightarrow>
                      Failed (fst (List.product (map fst MARKET_CONFIG) [''5m'', ''1h'', ''1d''] ! 1))
                        (snd (List.product (map fst MARKET_CONFIG) [''5m'', ''1h'', ''1d''] ! 1)) msg
                  | Inr r \<Rightarrow> Filled r)))"
    using idle len tl th tf one unfolding mc pl
    by (intro exI [of _ ?results] exI [of _ ?after] conjI exI [of _ tbls]) assumption+
  have all: "\<forall>tok tf tbl. fillGaps (Suc 1) (ex_env (ex_hour 7)) (marketConfig ?idle) tok tf 1000 tbl \<noteq> None"
    by (simp add: ex_fillGaps_returns)
  have ret: "\<exists>results dm'. fillAllGaps (Suc 1) (ex_env (ex_hour 7)) ?idle = Some (results, dm')"
    by (rule t3 [THEN conjunct2, THEN conjunct2, THEN conjunct2, THEN conjunct2, THEN conjunct2,
        THEN conjunct2, THEN conjunct2, rule_format]) (intro conjI i all)
  show ?thesis
    by (intro conjI b r1 again busy r0 i idle trace ret)
qed

end
